theory Spec2Isabelle
  imports Complex_Main
begin

section \<open>Numbers\<close>

text \<open>
  The solver computes on numpy arrays of double-precision numbers. The embedding
  computes on \<^typ>\<open>real\<close>: every statement below is about the exact arithmetic the
  floating-point code approximates. The concrete models used below only produce
  values that a double represents exactly or whose comparisons against 0 and the
  tolerance come out the same way.
\<close>

text \<open>Modelled from the spec: the fixed numeric tolerance of the Tableau component
  (section 4.2, "recommended epsilon about 1e-9"); tableau.py is not among the sources.\<close>

definition tolerance :: real where
  "tolerance = 1 / 10 ^ 9"

section \<open>Model, expressions, constraints, objective\<close>

text \<open>Modelled from the spec: saport/simplex/model.py and
  saport/simplex/expressions/*.py are not among the sources. The records and operations
  of this section follow sections 3 and 4.1: a linear expression is a mapping from
  variables to coefficients with an implicit 0 for an absent variable, plus a constant
  term. The mapping is keyed by the variable's index, which the spec makes the
  variable's identity inside a model.\<close>

record variable =
  v_index :: nat
  v_name :: string

record expression =
  coeffs :: "nat \<Rightarrow> real"
  e_const :: real

datatype constraint_type = LE | EQ | GE

datatype objective_type = ObjMAX | ObjMIN

record constraint =
  c_expression :: expression
  c_type :: constraint_type
  c_bound :: real
  c_index :: nat

record objective =
  o_expression :: expression
  o_type :: objective_type

record model =
  m_name :: string
  variables :: "variable list"
  constraints :: "constraint list"
  objective :: objective

text \<open>Modelled from the spec: the expression combinators (addition sums coefficients
  and constants, scaling multiplies both, a variable stands for itself with
  coefficient 1).\<close>

definition expr_zero :: expression where
  "expr_zero = \<lparr>coeffs = (\<lambda>k. 0), e_const = 0\<rparr>"

definition expr_of_variable :: "variable \<Rightarrow> expression" where
  "expr_of_variable v = \<lparr>coeffs = (\<lambda>k. if k = v_index v then 1 else 0), e_const = 0\<rparr>"

definition expr_of_constant :: "real \<Rightarrow> expression" where
  "expr_of_constant a = \<lparr>coeffs = (\<lambda>k. 0), e_const = a\<rparr>"

definition expr_add :: "expression \<Rightarrow> expression \<Rightarrow> expression" where
  "expr_add e1 e2 =
     \<lparr>coeffs = (\<lambda>k. coeffs e1 k + coeffs e2 k), e_const = e_const e1 + e_const e2\<rparr>"

definition expr_scale :: "real \<Rightarrow> expression \<Rightarrow> expression" where
  "expr_scale a e = \<lparr>coeffs = (\<lambda>k. a * coeffs e k), e_const = a * e_const e\<rparr>"

definition expr_sub :: "expression \<Rightarrow> expression \<Rightarrow> expression" where
  "expr_sub e1 e2 = expr_add e1 (expr_scale (- 1) e2)"

text \<open>Modelled from the spec: \<open>Expression.coefficients(model)\<close>, the dense coefficient
  vector ordered by the model's variables.\<close>

definition coefficients :: "expression \<Rightarrow> model \<Rightarrow> real list" where
  "coefficients e m = map (\<lambda>v. coeffs e (v_index v)) (variables m)"

text \<open>Modelled from the spec: \<open>Constraint.invert()\<close> negates expression and bound and
  swaps \<open>\<le>\<close> with \<open>\<ge>\<close>; \<open>Objective.invert()\<close> negates the expression and turns
  the direction round.\<close>

definition invert_type :: "constraint_type \<Rightarrow> constraint_type" where
  "invert_type ty = (case ty of LE \<Rightarrow> GE | GE \<Rightarrow> LE | EQ \<Rightarrow> EQ)"

definition invert_constraint :: "constraint \<Rightarrow> constraint" where
  "invert_constraint c =
     c\<lparr>c_expression := expr_scale (- 1) (c_expression c),
       c_bound := - c_bound c,
       c_type := invert_type (c_type c)\<rparr>"

definition invert_objective :: "objective \<Rightarrow> objective" where
  "invert_objective ob =
     \<lparr>o_expression = expr_scale (- 1) (o_expression ob),
      o_type = (case o_type ob of ObjMAX \<Rightarrow> ObjMIN | ObjMIN \<Rightarrow> ObjMAX)\<rparr>"

text \<open>Modelled from the spec: the model's construction interface (section 4.1).
  \<open>create_variable\<close> hands out the next index; \<open>add_constraint\<close> moves the
  constant term of the expression into the bound and hands out the next constraint index;
  \<open>simplify\<close> does the same move on every constraint.\<close>

definition new_model :: "string \<Rightarrow> model" where
  "new_model nm =
     \<lparr>m_name = nm, variables = [], constraints = [],
      objective = \<lparr>o_expression = expr_zero, o_type = ObjMAX\<rparr>\<rparr>"

definition create_variable :: "model \<Rightarrow> string \<Rightarrow> variable \<times> model" where
  "create_variable m nm =
     (let v = \<lparr>v_index = length (variables m), v_name = nm\<rparr>
      in (v, m\<lparr>variables := variables m @ [v]\<rparr>))"

definition simplify_constraint :: "constraint \<Rightarrow> constraint" where
  "simplify_constraint c =
     c\<lparr>c_expression := (c_expression c)\<lparr>e_const := 0\<rparr>,
       c_bound := c_bound c - e_const (c_expression c)\<rparr>"

definition add_constraint :: "model \<Rightarrow> expression \<Rightarrow> constraint_type \<Rightarrow> real \<Rightarrow> model" where
  "add_constraint m e ty b =
     m\<lparr>constraints := constraints m @
          [simplify_constraint
             \<lparr>c_expression = e, c_type = ty, c_bound = b, c_index = length (constraints m)\<rparr>]\<rparr>"

definition maximize :: "model \<Rightarrow> expression \<Rightarrow> model" where
  "maximize m e = m\<lparr>objective := \<lparr>o_expression = e, o_type = ObjMAX\<rparr>\<rparr>"

definition minimize :: "model \<Rightarrow> expression \<Rightarrow> model" where
  "minimize m e = m\<lparr>objective := \<lparr>o_expression = e, o_type = ObjMIN\<rparr>\<rparr>"

definition simplify :: "model \<Rightarrow> model" where
  "simplify m = m\<lparr>constraints := map simplify_constraint (constraints m)\<rparr>"

text \<open>Modelled from the spec: the invariant of section 3. Variable and constraint
  indices are the positions, and no expression mentions a variable the model does not
  have.\<close>

definition wf_model :: "model \<Rightarrow> bool" where
  "wf_model m \<longleftrightarrow>
     map v_index (variables m) = [0..<length (variables m)] \<and>
     map c_index (constraints m) = [0..<length (constraints m)] \<and>
     (\<forall>c \<in> set (constraints m). \<forall>k \<ge> length (variables m). coeffs (c_expression c) k = 0) \<and>
     (\<forall>k \<ge> length (variables m). coeffs (o_expression (objective m)) k = 0)"

section \<open>Tableau\<close>

text \<open>Modelled from the spec: saport/simplex/tableau.py is not among the sources.
  The solver's own code (\<open>_basic_initial_tableau\<close>, \<open>table[0]\<close>, \<open>np.delete\<close>) fixes the
  representation: a model and a dense matrix, row 0 the objective row, last column the
  right-hand side.\<close>

record tableau =
  t_model :: model
  table :: "real list list"

fun first_index :: "('a \<Rightarrow> bool) \<Rightarrow> 'a list \<Rightarrow> nat" where
  "first_index P [] = 0"
| "first_index P (x # xs) = (if P x then 0 else Suc (first_index P xs))"

text \<open>numpy's \<open>amax\<close>, \<open>amin\<close>, \<open>argmax\<close>, \<open>argmin\<close> on a non-empty vector; the arg
  functions return the first position of the extremum.\<close>

definition amax :: "real list \<Rightarrow> real" where
  "amax xs = fold max (tl xs) (hd xs)"

definition amin :: "real list \<Rightarrow> real" where
  "amin xs = fold min (tl xs) (hd xs)"

definition argmax :: "real list \<Rightarrow> nat" where
  "argmax xs = first_index (\<lambda>x. x = amax xs) xs"

definition argmin :: "real list \<Rightarrow> nat" where
  "argmin xs = first_index (\<lambda>x. x = amin xs) xs"

text \<open>Modelled from the spec: \<open>Tableau.is_optimal\<close>, every objective-row entry but the
  right-hand side is \<open>\<ge> 0\<close> within the tolerance.\<close>

definition is_optimal :: "tableau \<Rightarrow> bool" where
  "is_optimal t = list_all (\<lambda>x. - tolerance \<le> x) (butlast (table t ! 0))"

text \<open>Modelled from the spec: \<open>Tableau.choose_entering_variable\<close>, the column of the
  most negative objective-row entry, the lowest column on a tie.\<close>

definition choose_entering_variable :: "tableau \<Rightarrow> nat" where
  "choose_entering_variable t = argmin (butlast (table t ! 0))"

text \<open>Modelled from the spec: \<open>Tableau.is_unbounded\<close>, every constraint-row entry of the
  column is \<open>\<le> 0\<close> within the tolerance.\<close>

definition is_unbounded :: "tableau \<Rightarrow> nat \<Rightarrow> bool" where
  "is_unbounded t col = list_all (\<lambda>r. r ! col \<le> tolerance) (tl (table t))"

text \<open>Modelled from the spec: \<open>Tableau.choose_leaving_variable\<close>, the minimum-ratio test
  over the constraint rows whose entry in the column is positive (beyond the tolerance,
  as every comparison against 0 is); the lowest row on a tie. The result is the row
  number in the matrix. The solver calls it only after \<open>is_unbounded\<close> said no,
  so a candidate row exists; the fallback 0 is never reached from the solver.\<close>

fun min_ratio_row :: "nat \<Rightarrow> nat \<Rightarrow> real list list \<Rightarrow> (nat \<times> real) option \<Rightarrow> (nat \<times> real) option" where
  "min_ratio_row col i [] best = best"
| "min_ratio_row col i (r # rs) best =
     (if tolerance < r ! col then
        (case best of
           None \<Rightarrow> min_ratio_row col (Suc i) rs (Some (i, last r / (r ! col)))
         | Some (bi, bq) \<Rightarrow>
             if last r / (r ! col) < bq
             then min_ratio_row col (Suc i) rs (Some (i, last r / (r ! col)))
             else min_ratio_row col (Suc i) rs best)
      else min_ratio_row col (Suc i) rs best)"

definition choose_leaving_variable :: "tableau \<Rightarrow> nat \<Rightarrow> nat" where
  "choose_leaving_variable t col =
     (case min_ratio_row col 1 (tl (table t)) None of Some (i, q) \<Rightarrow> i | None \<Rightarrow> 0)"

text \<open>Modelled from the spec: \<open>Tableau.pivot\<close>, divide the pivot row by the pivot entry
  and subtract its multiples from every other row, row 0 included. The Python mutates
  the matrix in place; here the new tableau is returned.\<close>

definition pivot :: "tableau \<Rightarrow> nat \<Rightarrow> nat \<Rightarrow> tableau" where
  "pivot t row col =
     (let prow = map (\<lambda>x. x / (table t ! row ! col)) (table t ! row)
      in t\<lparr>table :=
            map (\<lambda>(i, r). if i = row then prow else map2 (\<lambda>x p. x - (r ! col) * p) r prow)
              (enumerate 0 (table t))\<rparr>)"

text \<open>Modelled from the spec: \<open>Tableau.extract_assignment\<close>. A column of the matrix is a
  basic unit column when, within the tolerance, one entry is 1 and all others are 0; the
  variable's value is then the right-hand side of the row of the 1, which has to be a
  constraint row. Every other variable is 0.\<close>

definition column :: "real list list \<Rightarrow> nat \<Rightarrow> real list" where
  "column tb c = map (\<lambda>r. r ! c) tb"

definition is_one :: "real \<Rightarrow> bool" where
  "is_one x = (\<bar>x - 1\<bar> \<le> tolerance)"

definition is_zero :: "real \<Rightarrow> bool" where
  "is_zero x = (\<bar>x\<bar> \<le> tolerance)"

definition is_basic_column :: "real list \<Rightarrow> bool" where
  "is_basic_column col =
     (length (filter is_one col) = 1 \<and> list_all is_zero (filter (\<lambda>x. \<not> is_one x) col)
      \<and> 1 \<le> first_index is_one col)"

definition column_value :: "real list list \<Rightarrow> nat \<Rightarrow> real" where
  "column_value tb c =
     (if is_basic_column (column tb c) then last (tb ! first_index is_one (column tb c)) else 0)"

definition extract_assignment :: "tableau \<Rightarrow> real list" where
  "extract_assignment t = map (column_value (table t)) [0..<length (table t ! 0) - 1]"

section \<open>Solution\<close>

text \<open>Modelled from the spec: saport/simplex/solution.py is not among the sources.
  Following sections 3 and 6, a solution is a status, the raw assignment indexed like
  the augmented model (absent when there is none), and the two tableaux the solver hands
  over; the three constructors are the ones the solver calls; \<open>assignment\<close> truncates
  to the caller's variables and \<open>objective_value\<close> evaluates the caller's objective at
  the assignment.\<close>

datatype status = Optimal | Infeasible | Unbounded

record solution =
  s_status :: status
  s_model :: model
  raw_assignment :: "real list option"
  initial_tableau :: tableau
  final_tableau :: tableau

definition infeasible :: "model \<Rightarrow> tableau \<Rightarrow> tableau \<Rightarrow> solution" where
  "infeasible m it ft =
     \<lparr>s_status = Infeasible, s_model = m, raw_assignment = None,
      initial_tableau = it, final_tableau = ft\<rparr>"

definition unbounded :: "model \<Rightarrow> tableau \<Rightarrow> tableau \<Rightarrow> solution" where
  "unbounded m it ft =
     \<lparr>s_status = Unbounded, s_model = m, raw_assignment = None,
      initial_tableau = it, final_tableau = ft\<rparr>"

definition with_assignment :: "model \<Rightarrow> real list \<Rightarrow> tableau \<Rightarrow> tableau \<Rightarrow> solution" where
  "with_assignment m a it ft =
     \<lparr>s_status = Optimal, s_model = m, raw_assignment = Some a,
      initial_tableau = it, final_tableau = ft\<rparr>"

definition assignment :: "solution \<Rightarrow> model \<Rightarrow> real list option" where
  "assignment sol m = map_option (take (length (variables m))) (raw_assignment sol)"

definition evaluate :: "expression \<Rightarrow> model \<Rightarrow> real list \<Rightarrow> real" where
  "evaluate e m xs =
     sum_list (map (\<lambda>(v, x). coeffs e (v_index v) * x) (zip (variables m) xs)) + e_const e"

definition objective_value :: "solution \<Rightarrow> real option" where
  "objective_value sol =
     map_option (evaluate (o_expression (objective (s_model sol))) (s_model sol))
       (assignment sol (s_model sol))"

section \<open>Solver (saport/simplex/solver.py)\<close>

text \<open>
  The solver keeps three dictionaries from auxiliary variables to the constraints they
  were added to (\<open>_slacks\<close>, \<open>_surpluses\<close>, \<open>_artificial\<close>). Every key is a
  freshly created variable, so a dictionary is the list of its entries in insertion
  order. The solver reads only \<open>index\<close> of a stored constraint, so an entry stores that
  index. The solver's attributes are passed and returned explicitly.
\<close>

type_synonym aux_map = "(variable \<times> nat) list"

text \<open>The decimal numeral in the names \<open>s{index}\<close> and \<open>R{index}\<close>.\<close>

fun string_of_nat :: "nat \<Rightarrow> string" where
  "string_of_nat n =
     (if n < 10 then [char_of (48 + n)]
      else string_of_nat (n div 10) @ [char_of (48 + n mod 10)])"

declare string_of_nat.simps [simp del]

definition change_objective_to_max :: "model \<Rightarrow> model" where
  "change_objective_to_max m =
     (if o_type (objective m) = ObjMIN then m\<lparr>objective := invert_objective (objective m)\<rparr>
      else m)"

definition change_constraints_bounds_to_nonnegative :: "model \<Rightarrow> model" where
  "change_constraints_bounds_to_nonnegative m =
     m\<lparr>constraints :=
         map (\<lambda>c. if c_bound c < 0 then invert_constraint c else c) (constraints m)\<rparr>"

text \<open>The loop of \<open>_add_slack_variables\<close>: the remaining constraints and the model's
  variables so far; returns the constraints as left by the loop, the variables and the
  dictionary.\<close>

fun add_slack_loop :: "constraint list \<Rightarrow> variable list \<Rightarrow> constraint list \<times> variable list \<times> aux_map" where
  "add_slack_loop [] vars = ([], vars, [])"
| "add_slack_loop (c # cs) vars =
     (if c_type c = LE then
        (let slack_var = \<lparr>v_index = length vars, v_name = ''s'' @ string_of_nat (c_index c)\<rparr>;
             c' = c\<lparr>c_expression := expr_add (c_expression c) (expr_of_variable slack_var),
                    c_type := EQ\<rparr>;
             (cs', vars', slacks) = add_slack_loop cs (vars @ [slack_var])
         in (c' # cs', vars', (slack_var, c_index c') # slacks))
      else
        (let (cs', vars', slacks) = add_slack_loop cs vars
         in (c # cs', vars', slacks)))"

definition add_slack_variables :: "model \<Rightarrow> model \<times> aux_map" where
  "add_slack_variables m =
     (let (cs', vars', slacks) = add_slack_loop (constraints m) (variables m)
      in (m\<lparr>variables := vars', constraints := cs'\<rparr>, slacks))"

fun add_surplus_loop :: "constraint list \<Rightarrow> variable list \<Rightarrow> constraint list \<times> variable list \<times> aux_map" where
  "add_surplus_loop [] vars = ([], vars, [])"
| "add_surplus_loop (c # cs) vars =
     (if c_type c = GE then
        (let surplus_var = \<lparr>v_index = length vars, v_name = ''s'' @ string_of_nat (c_index c)\<rparr>;
             c' = c\<lparr>c_expression := expr_sub (c_expression c) (expr_of_variable surplus_var),
                    c_type := EQ\<rparr>;
             (cs', vars', surpluses) = add_surplus_loop cs (vars @ [surplus_var])
         in (c' # cs', vars', (surplus_var, c_index c') # surpluses))
      else
        (let (cs', vars', surpluses) = add_surplus_loop cs vars
         in (c # cs', vars', surpluses)))"

definition add_surplus_variables :: "model \<Rightarrow> model \<times> aux_map" where
  "add_surplus_variables m =
     (let (cs', vars', surpluses) = add_surplus_loop (constraints m) (variables m)
      in (m\<lparr>variables := vars', constraints := cs'\<rparr>, surpluses))"

text \<open>\<open>_augment_model\<close>: the deep copy is the value itself; the result carries
  \<open>self._slacks\<close> and \<open>self._surpluses\<close>.\<close>

definition augment_model :: "model \<Rightarrow> model \<times> aux_map \<times> aux_map" where
  "augment_model original_model =
     (let m1 = change_constraints_bounds_to_nonnegative
                 (change_objective_to_max (simplify original_model));
          (m2, slacks) = add_slack_variables m1;
          (m3, surpluses) = add_surplus_variables m2
      in (m3, slacks, surpluses))"

text \<open>The loop of \<open>_add_artificial_variables\<close>; it also accumulates the objective's
  expression, to which every artificial variable is added.\<close>

fun add_artificial_loop :: "nat list \<Rightarrow> constraint list \<Rightarrow> variable list \<Rightarrow> expression \<Rightarrow> constraint list \<times> variable list \<times> expression \<times> aux_map" where
  "add_artificial_loop with_slack [] vars obj = ([], vars, obj, [])"
| "add_artificial_loop with_slack (c # cs) vars obj =
     (if c_index c \<notin> set with_slack then
        (let artificial_var = \<lparr>v_index = length vars, v_name = ''R'' @ string_of_nat (c_index c)\<rparr>;
             c' = c\<lparr>c_expression := expr_add (c_expression c) (expr_of_variable artificial_var)\<rparr>;
             (cs', vars', obj', artificial_variables) =
                add_artificial_loop with_slack cs (vars @ [artificial_var])
                  (expr_add obj (expr_of_variable artificial_var))
         in (c' # cs', vars', obj', (artificial_var, c_index c') # artificial_variables))
      else
        (let (cs', vars', obj', artificial_variables) = add_artificial_loop with_slack cs vars obj
         in (c # cs', vars', obj', artificial_variables)))"

definition add_artificial_variables :: "aux_map \<Rightarrow> model \<Rightarrow> model \<times> aux_map" where
  "add_artificial_variables slacks m =
     (let with_slack = map snd slacks;
          (cs', vars', obj', artificial_variables) =
             add_artificial_loop with_slack (constraints m) (variables m)
               (o_expression (objective m))
      in (m\<lparr>variables := vars', constraints := cs',
             objective := (objective m)\<lparr>o_expression := obj'\<rparr>\<rparr>,
          artificial_variables))"

definition create_presolve_model :: "aux_map \<Rightarrow> model \<Rightarrow> model \<times> aux_map" where
  "create_presolve_model slacks augmented_model = add_artificial_variables slacks augmented_model"

definition basic_initial_tableau :: "model \<Rightarrow> tableau" where
  "basic_initial_tableau m =
     \<lparr>t_model = m,
      table = (coefficients (expr_scale (- 1) (o_expression (objective m))) m @ [0])
              # map (\<lambda>c. coefficients (c_expression c) m @ [c_bound c]) (constraints m)\<rparr>"

text \<open>\<open>_presolve_initial_tableau\<close>. The three steps write row 0 of the matrix: all
  zero; 1 in the column of every artificial variable; minus the row of every constraint
  an artificial variable was added to. Every index the steps use is inside the matrix
  when the dictionary comes from \<open>create_presolve_model\<close> on a well-formed model.\<close>

definition presolve_initial_tableau :: "aux_map \<Rightarrow> model \<Rightarrow> tableau" where
  "presolve_initial_tableau artificial m =
     (let tb0 = table (basic_initial_tableau m);
          tb1 = tb0[0 := map (\<lambda>x. 0) (tb0 ! 0)];
          tb2 = fold (\<lambda>(v, ci) tb. tb[0 := (tb ! 0)[v_index v := 1]]) artificial tb1;
          tb3 = fold (\<lambda>(v, ci) tb. tb[0 := map2 (-) (tb ! 0) (tb ! (ci + 1))]) artificial tb2
      in \<lparr>t_model = m, table = tb3\<rparr>)"

definition artifical_variables_are_positive :: "aux_map \<Rightarrow> tableau \<Rightarrow> bool" where
  "artifical_variables_are_positive artificial t =
     list_ex (\<lambda>(v, ci). 0 < extract_assignment t ! v_index v) artificial"

text \<open>\<open>np.delete(table, columns, axis=1)\<close> on one row, and \<open>np.column_stack\<close> on the
  list of constraint rows (the columns of the matrix they form, the right-hand side
  column among them).\<close>

definition delete_columns :: "nat list \<Rightarrow> real list \<Rightarrow> real list" where
  "delete_columns cols r = map snd (filter (\<lambda>(i, x). i \<notin> set cols) (enumerate 0 r))"

definition column_stack :: "real list list \<Rightarrow> real list list" where
  "column_stack rs = map (column rs) [0..<length (hd rs)]"

text \<open>Step 3 of \<open>_restore_initial_tableau\<close>: the loop over the enumerated columns, with
  row 0 of the new matrix as the loop's state; \<open>rs\<close> are the constraint rows, which the
  loop does not change.\<close>

fun restore_loop :: "real list list \<Rightarrow> (nat \<times> real list) list \<Rightarrow> real list \<Rightarrow> real list" where
  "restore_loop rs [] row0 = row0"
| "restore_loop rs ((i, col) # cols) row0 =
     (if (amax col, amin col) = (1, 0)
      then restore_loop rs cols (map2 (\<lambda>x y. x - (row0 ! i) * y) row0 (rs ! argmax col))
      else restore_loop rs cols row0)"

definition restore_initial_tableau :: "aux_map \<Rightarrow> tableau \<Rightarrow> model \<Rightarrow> tableau" where
  "restore_initial_tableau artificial t m =
     (let artificial_var_columns = map (\<lambda>(v, ci). v_index v) artificial;
          new_table = map (delete_columns artificial_var_columns) (table t);
          row0 = coefficients (expr_scale (- 1) (o_expression (objective m))) m @ [0];
          columns = column_stack (tl new_table)
      in \<lparr>t_model = t_model t,
          table = restore_loop (tl new_table) (enumerate 0 columns) row0 # tl new_table\<rparr>)"

text \<open>\<open>_optimize\<close>: the pivot loop. It may run forever (cycling), which is the value
  \<open>None\<close>; otherwise it returns the tableau as the loop left it and the flag the
  Python returns (\<open>False\<close> for unbounded).\<close>

partial_function (option) optimize :: "tableau \<Rightarrow> (tableau \<times> bool) option" where
  "optimize t =
     (if is_optimal t then Some (t, True)
      else
        (let pivot_col = choose_entering_variable t
         in if is_unbounded t pivot_col then Some (t, False)
            else optimize (pivot t (choose_leaving_variable t pivot_col) pivot_col)))"

declare optimize.simps [code]

text \<open>\<open>_presolve\<close>: returns the tableau, the success flag and \<open>self._artificial\<close>.
  The flag of the Phase-I \<open>_optimize\<close> call is dropped, as in the source.\<close>

definition presolve :: "aux_map \<Rightarrow> model \<Rightarrow> (tableau \<times> bool \<times> aux_map) option" where
  "presolve slacks m =
     (let (presolve_model, artificial) = create_presolve_model slacks m;
          t0 = presolve_initial_tableau artificial presolve_model
      in case optimize t0 of
           None \<Rightarrow> None
         | Some (t1, ok) \<Rightarrow>
             if artifical_variables_are_positive artificial t1 then Some (t1, False, artificial)
             else Some (restore_initial_tableau artificial t1 m, True, artificial))"

definition create_solution :: "real list \<Rightarrow> model \<Rightarrow> tableau \<Rightarrow> tableau \<Rightarrow> solution" where
  "create_solution a m it ft = with_assignment m a it ft"

text \<open>The second half of \<open>solve\<close>, from \<open>initial_tableau = deepcopy(tableau)\<close> on.\<close>

definition solve_from :: "model \<Rightarrow> tableau \<Rightarrow> solution option" where
  "solve_from m t =
     (let initial = t
      in case optimize t of
           None \<Rightarrow> None
         | Some (t', ok) \<Rightarrow>
             if \<not> ok then Some (unbounded m initial t')
             else Some (create_solution (extract_assignment t') m initial t'))"

definition solve :: "model \<Rightarrow> solution option" where
  "solve m =
     (let (normal_model, slacks, surpluses) = augment_model m
      in if length slacks < length (constraints normal_model) then
           (case presolve slacks normal_model of
              None \<Rightarrow> None
            | Some (t, success, artificial) \<Rightarrow>
                if \<not> success then Some (infeasible m t t) else solve_from m t)
         else solve_from m (basic_initial_tableau normal_model))"

section \<open>The example models\<close>

text \<open>\<open>create_model\<close> of example_04_solvable_artificial_vars.py:
  maximize \<open>2 x1 + x2\<close> subject to \<open>x1 + 2 x2 \<le> 20\<close> and \<open>x1 + x2 = 10\<close>.\<close>

definition example_04 :: model where
  "example_04 =
     (let m0 = new_model ''example_04_solvable_artificial'';
          (x1, m1) = create_variable m0 ''x1'';
          (x2, m2) = create_variable m1 ''x2'';
          m3 = add_constraint m2
                 (expr_add (expr_of_variable x1) (expr_scale 2 (expr_of_variable x2))) LE 20;
          m4 = add_constraint m3 (expr_add (expr_of_variable x1) (expr_of_variable x2)) EQ 10
      in maximize m4 (expr_add (expr_scale 2 (expr_of_variable x1)) (expr_of_variable x2)))"

text \<open>\<open>create_model\<close> of example_05_infeasible.py: maximize \<open>5 x1 + 8 x2\<close> subject
  to \<open>x1 - 3 x2 + x3 \<ge> 10\<close> and \<open>x1 + 2 x2 - x3 \<le> -10\<close>.\<close>

definition example_05 :: model where
  "example_05 =
     (let m0 = new_model ''example_05_infeasible'';
          (x1, m1) = create_variable m0 ''x1'';
          (x2, m2) = create_variable m1 ''x2'';
          (x3, m3) = create_variable m2 ''x3'';
          m4 = add_constraint m3
                 (expr_add (expr_sub (expr_of_variable x1) (expr_scale 3 (expr_of_variable x2)))
                    (expr_of_variable x3)) GE 10;
          m5 = add_constraint m4
                 (expr_sub (expr_add (expr_of_variable x1) (expr_scale 2 (expr_of_variable x2)))
                    (expr_of_variable x3)) LE (- 10)
      in maximize m5
           (expr_add (expr_scale 5 (expr_of_variable x1)) (expr_scale 8 (expr_of_variable x2))))"

text \<open>Small models with one variable \<open>x1\<close> and the objective maximize \<open>x1\<close>
  (minimize for the first), used as concrete inputs below.\<close>

definition one_variable_model :: "string \<Rightarrow> (real \<times> constraint_type \<times> real) list \<Rightarrow> objective_type \<Rightarrow> model" where
  "one_variable_model nm cs dir =
     (let (x1, m1) = create_variable (new_model nm) ''x1'';
          m2 = fold (\<lambda>(a, ty, b) m. add_constraint m (expr_scale a (expr_of_variable x1)) ty b) cs m1
      in if dir = ObjMAX then maximize m2 (expr_of_variable x1)
         else minimize m2 (expr_of_variable x1))"

text \<open>minimize \<open>x1\<close> subject to \<open>- x1 \<le> -1\<close>.\<close>

definition example_le_negative :: model where
  "example_le_negative = one_variable_model ''le_negative'' [(- 1, LE, - 1)] ObjMIN"

text \<open>maximize \<open>x1\<close> subject to \<open>x1 \<ge> -1\<close> and \<open>x1 \<le> 3\<close>.\<close>

definition example_ge_negative :: model where
  "example_ge_negative = one_variable_model ''ge_negative'' [(1, GE, - 1), (1, LE, 3)] ObjMAX"

text \<open>maximize \<open>x1\<close> subject to \<open>- x1 = 5e-10\<close>.\<close>

definition example_tiny_bound :: model where
  "example_tiny_bound = one_variable_model ''tiny_bound'' [(- 1, EQ, 5 / 10 ^ 10)] ObjMAX"

text \<open>maximize \<open>x1\<close> subject to \<open>6e-10 x1 = 1\<close> and \<open>6e-10 x1 = 2\<close>.\<close>

definition example_tiny_coefficients :: model where
  "example_tiny_coefficients =
     one_variable_model ''tiny_coefficients'' [(6 / 10 ^ 10, EQ, 1), (6 / 10 ^ 10, EQ, 2)] ObjMAX"

text \<open>maximize \<open>x1\<close> subject to \<open>x1 = 5\<close>.\<close>

definition example_single_equality :: model where
  "example_single_equality = one_variable_model ''single_equality'' [(1, EQ, 5)] ObjMAX"

text \<open>maximize \<open>x1\<close> subject to \<open>x1 \<le> 1\<close> and \<open>x1 = 2\<close>.\<close>

definition example_contradiction :: model where
  "example_contradiction = one_variable_model ''contradiction'' [(1, LE, 1), (1, EQ, 2)] ObjMAX"

text \<open>maximize \<open>x1\<close> subject to \<open>- x1 = 0\<close>.\<close>

definition example_degenerate :: model where
  "example_degenerate = one_variable_model ''degenerate'' [(- 1, EQ, 0)] ObjMAX"

section \<open>The stages of one \<open>solve\<close> call\<close>

text \<open>Names for the intermediate values of \<open>solve\<close>, in the order the source computes
  them, so that statements about one stage can be written down.\<close>

definition normal_model_of :: "model \<Rightarrow> model" where
  "normal_model_of m = fst (augment_model m)"

definition slacks_of :: "model \<Rightarrow> aux_map" where
  "slacks_of m = fst (snd (augment_model m))"

definition surpluses_of :: "model \<Rightarrow> aux_map" where
  "surpluses_of m = snd (snd (augment_model m))"

text \<open>The test of \<open>solve\<close> that sends the model to \<open>_presolve\<close>.\<close>

definition needs_presolve :: "model \<Rightarrow> bool" where
  "needs_presolve m \<longleftrightarrow> length (slacks_of m) < length (constraints (normal_model_of m))"

text \<open>The presolve model and \<open>self._artificial\<close> as \<open>_presolve\<close> builds them, the
  Phase-I tableau before the loop, and the result of the Phase-I loop.\<close>

definition presolve_model_of :: "model \<Rightarrow> model" where
  "presolve_model_of m = fst (create_presolve_model (slacks_of m) (normal_model_of m))"

definition artificial_of :: "model \<Rightarrow> aux_map" where
  "artificial_of m = snd (create_presolve_model (slacks_of m) (normal_model_of m))"

definition phase1_initial :: "model \<Rightarrow> tableau" where
  "phase1_initial m = presolve_initial_tableau (artificial_of m) (presolve_model_of m)"

definition phase1_loop :: "model \<Rightarrow> (tableau \<times> bool) option" where
  "phase1_loop m = optimize (phase1_initial m)"

definition phase1_final :: "model \<Rightarrow> tableau option" where
  "phase1_final m = map_option fst (phase1_loop m)"

text \<open>The tableau on which \<open>solve\<close> runs its own \<open>_optimize\<close> call, when it gets
  that far: the restored tableau after a successful Phase I, the slack-only tableau when
  Phase I is not needed.\<close>

definition phase2_start :: "model \<Rightarrow> tableau option" where
  "phase2_start m =
     (if needs_presolve m then
        (case phase1_loop m of
           None \<Rightarrow> None
         | Some (t1, ok) \<Rightarrow>
             if artifical_variables_are_positive (artificial_of m) t1 then None
             else Some (restore_initial_tableau (artificial_of m) t1 (normal_model_of m)))
      else Some (basic_initial_tableau (normal_model_of m)))"

text \<open>The tableaux the loop of \<open>_optimize\<close> passes through, started on \<open>t\<close>: each step is
  one iteration of the loop that reaches its pivot.\<close>

inductive loop_reaches :: "tableau \<Rightarrow> tableau \<Rightarrow> bool" where
  here: "loop_reaches t t"
| step: "\<not> is_optimal t \<Longrightarrow> \<not> is_unbounded t (choose_entering_variable t) \<Longrightarrow>
         loop_reaches (pivot t (choose_leaving_variable t (choose_entering_variable t))
                         (choose_entering_variable t)) t' \<Longrightarrow>
         loop_reaches t t'"

text \<open>The loop stopped on its unbounded exit: the tableau is not optimal and
  \<open>is_unbounded\<close> holds of the entering column.\<close>

definition loop_stopped_unbounded :: "(tableau \<times> bool) option \<Rightarrow> bool" where
  "loop_stopped_unbounded r =
     (case r of
        None \<Rightarrow> False
      | Some (t, ok) \<Rightarrow> \<not> ok \<and> \<not> is_optimal t \<and> is_unbounded t (choose_entering_variable t))"

section \<open>The three passes that add auxiliary variables, as one loop\<close>

text \<open>The loops of \<open>_add_slack_variables\<close>, \<open>_add_surplus_variables\<close> and
  \<open>_add_artificial_variables\<close> differ in the constraints they pick, in what they do to
  a picked constraint and in the prefix of the name. \<open>aux_loop\<close> is their common shape;
  the three loops are shown equal to instances of it, and their properties are proved
  once. \<open>aux_variable\<close> is the variable the loop creates at position \<open>i\<close>: its index
  is the number of variables before the loop plus the number of constraints picked
  before position \<open>i\<close>.\<close>

fun aux_loop :: "(constraint \<Rightarrow> bool) \<Rightarrow> (constraint \<Rightarrow> variable \<Rightarrow> constraint) \<Rightarrow> string \<Rightarrow> constraint list \<Rightarrow> variable list \<Rightarrow> constraint list \<times> variable list \<times> aux_map" where
  "aux_loop P upd pre [] vars = ([], vars, [])"
| "aux_loop P upd pre (c # cs) vars =
     (if P c then
        (let v = \<lparr>v_index = length vars, v_name = pre @ string_of_nat (c_index c)\<rparr>;
             (cs', vars', d) = aux_loop P upd pre cs (vars @ [v])
         in (upd c v # cs', vars', (v, c_index c) # d))
      else
        (let (cs', vars', d) = aux_loop P upd pre cs vars
         in (c # cs', vars', d)))"

definition aux_variable :: "(constraint \<Rightarrow> bool) \<Rightarrow> string \<Rightarrow> nat \<Rightarrow> constraint list \<Rightarrow> nat \<Rightarrow> variable" where
  "aux_variable P pre n cs i =
     \<lparr>v_index = n + length (filter P (take i cs)), v_name = pre @ string_of_nat (c_index (cs ! i))\<rparr>"

definition slack_update :: "constraint \<Rightarrow> variable \<Rightarrow> constraint" where
  "slack_update c v = c\<lparr>c_expression := expr_add (c_expression c) (expr_of_variable v), c_type := EQ\<rparr>"

definition surplus_update :: "constraint \<Rightarrow> variable \<Rightarrow> constraint" where
  "surplus_update c v = c\<lparr>c_expression := expr_sub (c_expression c) (expr_of_variable v), c_type := EQ\<rparr>"

definition artificial_update :: "constraint \<Rightarrow> variable \<Rightarrow> constraint" where
  "artificial_update c v = c\<lparr>c_expression := expr_add (c_expression c) (expr_of_variable v)\<rparr>"

abbreviation is_le :: "constraint \<Rightarrow> bool" where
  "is_le \<equiv> \<lambda>c. c_type c = LE"

abbreviation is_ge :: "constraint \<Rightarrow> bool" where
  "is_ge \<equiv> \<lambda>c. c_type c = GE"

text \<open>The model as \<open>_augment_model\<close> has it when the slack pass starts, and what the
  three steps before it do to one constraint.\<close>

definition sign_normalized :: "model \<Rightarrow> model" where
  "sign_normalized m =
     change_constraints_bounds_to_nonnegative (change_objective_to_max (simplify m))"

definition sign_normalize :: "constraint \<Rightarrow> constraint" where
  "sign_normalize c =
     (if c_bound (simplify_constraint c) < 0 then invert_constraint (simplify_constraint c)
      else simplify_constraint c)"

text \<open>The results of the two passes of \<open>_augment_model\<close>, and the variables they
  create for the constraint at position \<open>i\<close>.\<close>

definition slack_pass :: "model \<Rightarrow> constraint list \<times> variable list \<times> aux_map" where
  "slack_pass m =
     aux_loop is_le slack_update ''s'' (constraints (sign_normalized m)) (variables m)"

definition surplus_pass :: "model \<Rightarrow> constraint list \<times> variable list \<times> aux_map" where
  "surplus_pass m =
     aux_loop is_ge surplus_update ''s'' (fst (slack_pass m)) (fst (snd (slack_pass m)))"

definition slack_variable_of :: "model \<Rightarrow> nat \<Rightarrow> variable" where
  "slack_variable_of m i =
     aux_variable is_le ''s'' (length (variables m)) (constraints (sign_normalized m)) i"

definition surplus_variable_of :: "model \<Rightarrow> nat \<Rightarrow> variable" where
  "surplus_variable_of m i =
     aux_variable is_ge ''s'' (length (fst (snd (slack_pass m)))) (fst (slack_pass m)) i"

text \<open>The same for \<open>_add_artificial_variables\<close>, which picks the constraints whose index
  is not the index of a constraint with a slack.\<close>

definition lacks_slack :: "aux_map \<Rightarrow> constraint \<Rightarrow> bool" where
  "lacks_slack slacks c \<longleftrightarrow> c_index c \<notin> set (map snd slacks)"

definition artificial_pass :: "aux_map \<Rightarrow> model \<Rightarrow> constraint list \<times> variable list \<times> aux_map" where
  "artificial_pass slacks m =
     aux_loop (lacks_slack slacks) artificial_update ''R'' (constraints m) (variables m)"

definition artificial_variable_of :: "aux_map \<Rightarrow> model \<Rightarrow> nat \<Rightarrow> variable" where
  "artificial_variable_of slacks m i =
     aux_variable (lacks_slack slacks) ''R'' (length (variables m)) (constraints m) i"

section \<open>Conditions the spec states\<close>

text \<open>The simplified model contains an equality or a \<open>\<ge>\<close> constraint (the spec's
  condition for Phase I).\<close>

definition has_eq_or_ge :: "model \<Rightarrow> bool" where
  "has_eq_or_ge m = list_ex (\<lambda>c. c_type c = EQ \<or> c_type c = GE) (constraints (simplify m))"

text \<open>The condition that \<open>solve\<close>'s test amounts to: the constraint of the simplified
  model is not \<open>\<le>\<close> once a negative bound has been inverted.\<close>

definition not_le_after_sign_normalization :: "constraint \<Rightarrow> bool" where
  "not_le_after_sign_normalization c \<longleftrightarrow>
     c_type c = EQ \<or> (c_type c = GE \<and> 0 \<le> c_bound c) \<or> (c_type c = LE \<and> c_bound c < 0)"

text \<open>Some artificial variable's value in the assignment of \<open>t\<close> exceeds the numeric
  tolerance (the spec's condition for infeasibility).\<close>

definition artificial_exceeds_tolerance :: "aux_map \<Rightarrow> tableau \<Rightarrow> bool" where
  "artificial_exceeds_tolerance artificial t =
     list_ex (\<lambda>(v, ci). tolerance < extract_assignment t ! v_index v) artificial"

text \<open>The constraint with index \<open>ci\<close> has no auxiliary variable, slack or surplus (the
  spec's condition for an artificial variable); it has an artificial variable.\<close>

definition lacks_auxiliary :: "aux_map \<Rightarrow> aux_map \<Rightarrow> nat \<Rightarrow> bool" where
  "lacks_auxiliary slacks surpluses ci \<longleftrightarrow>
     ci \<notin> set (map snd slacks) \<and> ci \<notin> set (map snd surpluses)"

definition has_artificial :: "aux_map \<Rightarrow> nat \<Rightarrow> bool" where
  "has_artificial artificial ci \<longleftrightarrow> ci \<in> set (map snd artificial)"

text \<open>The dictionary has an entry for the constraint with index \<open>ci\<close>.\<close>

definition recorded_in :: "aux_map \<Rightarrow> nat \<Rightarrow> bool" where
  "recorded_in d ci \<longleftrightarrow> ci \<in> set (map snd d)"

section \<open>Scenario 1: the example with an artificial variable\<close>

lemma example_04_run:
  "map_option (\<lambda>s. (s_status s, assignment s example_04, objective_value s)) (solve example_04)
     = Some (Optimal, Some [10, 0], Some 20)"
  by code_simp

text \<open>
  C1. For the model of example_04 (maximize \<open>2 x1 + x2\<close> subject to
  \<open>x1 + 2 x2 \<le> 20\<close> and \<open>x1 + x2 = 10\<close>, variables created in the order x1, x2),
  \<open>solve\<close> returns a solution with status optimal, whose assignment for the model's own
  variables is \<open>[10, 0]\<close> and whose objective value is 20.
\<close>

theorem example_04_optimal:
  "\<exists>sol. solve example_04 = Some sol \<and> s_status sol = Optimal
     \<and> assignment sol example_04 = Some [10, 0] \<and> objective_value sol = Some 20"
  using example_04_run by (cases "solve example_04") auto

section \<open>Properties of the loop that adds auxiliary variables\<close>

lemma coeffs_simps [simp]:
  "coeffs (expr_add a b) k = coeffs a k + coeffs b k"
  "coeffs (expr_scale x a) k = x * coeffs a k"
  "coeffs (expr_sub a b) k = coeffs a k - coeffs b k"
  "coeffs (expr_of_variable v) k = (if k = v_index v then 1 else 0)"
  by (simp_all add: expr_add_def expr_scale_def expr_sub_def expr_of_variable_def)

lemma updates_simps [simp]:
  "c_index (slack_update c v) = c_index c" "c_bound (slack_update c v) = c_bound c"
  "c_type (slack_update c v) = EQ"
  "c_expression (slack_update c v) = expr_add (c_expression c) (expr_of_variable v)"
  "c_index (surplus_update c v) = c_index c" "c_bound (surplus_update c v) = c_bound c"
  "c_type (surplus_update c v) = EQ"
  "c_expression (surplus_update c v) = expr_sub (c_expression c) (expr_of_variable v)"
  "c_index (artificial_update c v) = c_index c" "c_bound (artificial_update c v) = c_bound c"
  "c_type (artificial_update c v) = c_type c"
  "c_expression (artificial_update c v) = expr_add (c_expression c) (expr_of_variable v)"
  by (simp_all add: slack_update_def surplus_update_def artificial_update_def)

lemma aux_variable_simps [simp]:
  "v_index (aux_variable P pre n cs i) = n + length (filter P (take i cs))"
  "v_name (aux_variable P pre n cs i) = pre @ string_of_nat (c_index (cs ! i))"
  by (simp_all add: aux_variable_def)

lemma add_slack_loop_aux:
  "add_slack_loop cs vars = aux_loop (\<lambda>c. c_type c = LE) slack_update ''s'' cs vars"
  by (induction cs arbitrary: vars) (simp_all add: slack_update_def Let_def)

lemma add_surplus_loop_aux:
  "add_surplus_loop cs vars = aux_loop (\<lambda>c. c_type c = GE) surplus_update ''s'' cs vars"
  by (induction cs arbitrary: vars) (simp_all add: surplus_update_def Let_def)

lemma add_artificial_loop_aux:
  "add_artificial_loop ws cs vars obj =
     (case aux_loop (\<lambda>c. c_index c \<notin> set ws) artificial_update ''R'' cs vars of
        (cs', vars', d) \<Rightarrow>
          (cs', vars', fold (\<lambda>(v, ci) e. expr_add e (expr_of_variable v)) d obj, d))"
  by (induction cs arbitrary: vars obj) (simp_all add: artificial_update_def Let_def case_prod_beta)

lemma aux_loop_length:
  "length (fst (aux_loop P upd pre cs vars)) = length cs"
  by (induction cs arbitrary: vars) (simp_all add: Let_def case_prod_beta)

lemma aux_loop_dict_length:
  "length (snd (snd (aux_loop P upd pre cs vars))) = length (filter P cs)"
  by (induction cs arbitrary: vars) (simp_all add: Let_def case_prod_beta)

lemma aux_loop_vars:
  "fst (snd (aux_loop P upd pre cs vars)) = vars @ map fst (snd (snd (aux_loop P upd pre cs vars)))"
  by (induction cs arbitrary: vars) (simp_all add: Let_def case_prod_beta)

lemma aux_loop_nth:
  "i < length cs \<Longrightarrow>
     fst (aux_loop P upd pre cs vars) ! i =
       (if P (cs ! i) then upd (cs ! i) (aux_variable P pre (length vars) cs i) else cs ! i)"
proof (induction cs arbitrary: vars i)
  case Nil
  then show ?case by simp
next
  case (Cons c cs)
  show ?case
  proof (cases i)
    case 0
    then show ?thesis
      by (simp add: Let_def aux_variable_def case_prod_beta)
  next
    case (Suc j)
    with Cons.prems have j: "j < length cs" by simp
    show ?thesis
      using Cons.IH [OF j] Suc
      by (simp add: Let_def aux_variable_def case_prod_beta)
  qed
qed

lemma aux_loop_dict:
  "snd (snd (aux_loop P upd pre cs vars)) =
     map (\<lambda>i. (aux_variable P pre (length vars) cs i, c_index (cs ! i)))
       (filter (\<lambda>i. P (cs ! i)) [0..<length cs])"
proof (induction cs arbitrary: vars)
  case Nil
  then show ?case by simp
next
  case (Cons c cs)
  have shift: "[0..<length (c # cs)] = 0 # map Suc [0..<length cs]"
    by (simp add: upt_conv_Cons map_Suc_upt del: upt_Suc)
  show ?case
    unfolding shift
    by (simp add: Let_def Cons.IH aux_variable_def filter_map comp_def case_prod_beta)
qed

lemma aux_loop_dict_indices:
  "map (v_index \<circ> fst) (snd (snd (aux_loop P upd pre cs vars))) =
     [length vars..<length vars + length (filter P cs)]"
proof (induction cs arbitrary: vars)
  case Nil
  then show ?case by simp
next
  case (Cons c cs)
  show ?case
  proof (cases "P c")
    case True
    have "[length vars..<length vars + Suc (length (filter P cs))] =
        length vars # [Suc (length vars)..<Suc (length vars) + length (filter P cs)]"
      by (simp add: upt_conv_Cons del: upt_Suc)
    with True show ?thesis
      using Cons.IH [of "vars @ [\<lparr>v_index = length vars, v_name = pre @ string_of_nat (c_index c)\<rparr>]"]
      by (simp add: Let_def case_prod_beta del: upt_Suc)
  next
    case False
    then show ?thesis
      using Cons.IH [of vars] by (simp add: Let_def case_prod_beta)
  qed
qed

lemma aux_loop_vars_indices:
  assumes "map v_index vars = [0..<length vars]"
  shows "map v_index (fst (snd (aux_loop P upd pre cs vars))) =
           [0..<length (fst (snd (aux_loop P upd pre cs vars)))]"
proof -
  let ?d = "snd (snd (aux_loop P upd pre cs vars))"
  have v: "fst (snd (aux_loop P upd pre cs vars)) = vars @ map fst ?d"
    by (rule aux_loop_vars)
  have "map v_index (vars @ map fst ?d) = [0..<length vars] @ [length vars..<length vars + length (filter P cs)]"
    using assms aux_loop_dict_indices [of P upd pre cs vars] by (simp add: comp_def)
  also have "\<dots> = [0..<length vars + length (filter P cs)]"
    by (simp add: upt_add_eq_append [symmetric])
  finally show ?thesis
    by (simp add: v aux_loop_dict_length)
qed

lemma aux_loop_c_index:
  assumes "\<And>c v. c_index (upd c v) = c_index c"
  shows "map c_index (fst (aux_loop P upd pre cs vars)) = map c_index cs"
  by (induction cs arbitrary: vars) (simp_all add: Let_def case_prod_beta assms)

lemma aux_loop_dict_member:
  assumes "i < length cs" "P (cs ! i)"
  shows "(aux_variable P pre (length vars) cs i, c_index (cs ! i))
           \<in> set (snd (snd (aux_loop P upd pre cs vars)))"
  unfolding aux_loop_dict using assms by (auto simp: image_iff intro!: bexI [of _ i])

lemma aux_loop_dict_cases:
  assumes "(v, ci) \<in> set (snd (snd (aux_loop P upd pre cs vars)))"
  shows "\<exists>i < length cs. P (cs ! i) \<and> v = aux_variable P pre (length vars) cs i \<and> ci = c_index (cs ! i)"
  using assms unfolding aux_loop_dict by auto

lemma count_take_mono:
  "a \<le> b \<Longrightarrow> length (filter P (take a xs)) \<le> length (filter P (take b xs))"
proof -
  assume "a \<le> b"
  then have "take b xs = take a xs @ take (b - a) (drop a xs)"
    by (metis le_add_diff_inverse take_add)
  then show ?thesis by simp
qed

lemma count_take_less:
  assumes "i < j" "j \<le> length xs" "P (xs ! i)"
  shows "length (filter P (take i xs)) < length (filter P (take j xs))"
proof -
  have i: "i < length xs" using assms by simp
  have "length (filter P (take (Suc i) xs)) = Suc (length (filter P (take i xs)))"
    using assms(3) by (simp add: take_Suc_conv_app_nth [OF i])
  moreover have "length (filter P (take (Suc i) xs)) \<le> length (filter P (take j xs))"
    using assms(1) by (intro count_take_mono) simp
  ultimately show ?thesis by simp
qed

lemma count_take_less_total:
  assumes "i < length xs" "P (xs ! i)"
  shows "length (filter P (take i xs)) < length (filter P xs)"
  using count_take_less [of i "length xs" xs P] assms by simp

lemma length_filter_less_iff:
  "length (filter P xs) < length xs \<longleftrightarrow> (\<exists>x \<in> set xs. \<not> P x)"
  by (induction xs) (auto simp: less_Suc_eq_le)

lemma count_list_upt: "count_list [a..<b] k = (if a \<le> k \<and> k < b then 1 else 0)"
  by (induction b) auto

lemma sum_list_indicator:
  assumes "distinct xs" "i \<in> set xs"
  shows "(\<Sum>k\<leftarrow>xs. if k = i then 1 else 0) = (1::real)"
proof -
  have "(\<Sum>k\<leftarrow>xs. if k = i then 1 else 0) = (\<Sum>k\<in>set xs. if k = i then 1 else (0::real))"
    using assms(1) by (rule sum_list_distinct_conv_sum_set)
  also have "\<dots> = 1" using assms(2) by (simp add: sum.delta)
  finally show ?thesis .
qed

section \<open>Phase selection\<close>

lemma sign_normalized_fields:
  "variables (sign_normalized m) = variables m"
  "constraints (sign_normalized m) = map sign_normalize (constraints m)"
  "objective (sign_normalized m) =
     (if o_type (objective m) = ObjMIN then invert_objective (objective m) else objective m)"
  by (simp_all add: sign_normalized_def change_constraints_bounds_to_nonnegative_def
      change_objective_to_max_def simplify_def sign_normalize_def comp_def)

lemma augment_model_stages:
  "augment_model m =
     (let m1 = sign_normalized m;
          r1 = aux_loop is_le slack_update ''s'' (constraints m1) (variables m1);
          r2 = aux_loop is_ge surplus_update ''s'' (fst r1) (fst (snd r1))
      in (m1\<lparr>variables := fst (snd r2), constraints := fst r2\<rparr>, snd (snd r1), snd (snd r2)))"
  by (simp add: augment_model_def sign_normalized_def add_slack_variables_def
      add_surplus_variables_def add_slack_loop_aux add_surplus_loop_aux Let_def case_prod_beta)

lemma needs_presolve_count:
  "needs_presolve m \<longleftrightarrow>
     length (filter is_le (constraints (sign_normalized m))) < length (constraints (sign_normalized m))"
  by (simp add: needs_presolve_def slacks_of_def normal_model_of_def augment_model_stages Let_def
      aux_loop_length aux_loop_dict_length)

lemma sign_normalize_type:
  "c_type (sign_normalize c) \<noteq> LE \<longleftrightarrow> not_le_after_sign_normalization (simplify_constraint c)"
  by (cases "c_type c")
    (auto simp: sign_normalize_def not_le_after_sign_normalization_def invert_constraint_def
      invert_type_def simplify_constraint_def)

lemma needs_presolve_iff:
  "needs_presolve m \<longleftrightarrow> list_ex not_le_after_sign_normalization (constraints (simplify m))"
  by (simp add: needs_presolve_count length_filter_less_iff sign_normalized_fields
      list_ex_iff sign_normalize_type simplify_def)

lemma solve_branches:
  "solve m =
     (if needs_presolve m then
        (case presolve (slacks_of m) (normal_model_of m) of
           None \<Rightarrow> None
         | Some (t, success, artificial) \<Rightarrow>
             if \<not> success then Some (infeasible m t t) else solve_from m t)
      else solve_from m (basic_initial_tableau (normal_model_of m)))"
proof -
  obtain nm sl su where a: "augment_model m = (nm, sl, su)"
    by (cases "augment_model m") auto
  show ?thesis
    by (simp add: solve_def needs_presolve_def slacks_of_def normal_model_of_def a)
qed

text \<open>
  C2 (as amended). \<open>solve\<close> calls \<open>_presolve\<close> exactly when its test
  \<open>len(self._slacks) < len(normal_model.constraints)\<close> holds, and that test holds exactly
  when, after simplification and the inversion of every constraint with a negative
  bound, some constraint is not \<open>\<le>\<close>: the simplified model has an equality, a
  \<open>\<ge>\<close> constraint with a bound \<open>\<ge> 0\<close>, or a \<open>\<le>\<close> constraint with a negative
  bound. Otherwise \<open>solve\<close> takes the slack-only initial tableau.
\<close>

theorem phase_selection:
  "solve m =
     (if needs_presolve m then
        (case presolve (slacks_of m) (normal_model_of m) of
           None \<Rightarrow> None
         | Some (t, success, artificial) \<Rightarrow>
             if \<not> success then Some (infeasible m t t) else solve_from m t)
      else solve_from m (basic_initial_tableau (normal_model_of m)))
   \<and> (needs_presolve m \<longleftrightarrow>
        list_ex not_le_after_sign_normalization (constraints (simplify m)))"
  using solve_branches [of m] needs_presolve_iff [of m] by blast

text \<open>
  The claim as the spec words it fails in both directions: minimize \<open>x1\<close> subject to
  \<open>- x1 \<le> -1\<close> has only a \<open>\<le>\<close> constraint and goes through Phase I; maximize
  \<open>x1\<close> subject to \<open>x1 \<ge> -1\<close>, \<open>x1 \<le> 3\<close> has a \<open>\<ge>\<close> constraint and does
  not.
\<close>

theorem phase_selection_counterexample:
  "needs_presolve example_le_negative \<and> \<not> has_eq_or_ge example_le_negative
   \<and> has_eq_or_ge example_ge_negative \<and> \<not> needs_presolve example_ge_negative"
  by code_simp

section \<open>The augmented model\<close>

lemma augment_model_passes:
  "normal_model_of m =
     (sign_normalized m)\<lparr>variables := fst (snd (surplus_pass m)), constraints := fst (surplus_pass m)\<rparr>"
  "slacks_of m = snd (snd (slack_pass m))"
  "surpluses_of m = snd (snd (surplus_pass m))"
  by (simp_all add: normal_model_of_def slacks_of_def surpluses_of_def augment_model_stages
      Let_def slack_pass_def surplus_pass_def sign_normalized_fields)

lemma slack_pass_facts:
  "length (fst (slack_pass m)) = length (constraints m)"
  "length (fst (snd (slack_pass m))) =
     length (variables m) + length (filter is_le (constraints (sign_normalized m)))"
  "i < length (constraints m) \<Longrightarrow>
     fst (slack_pass m) ! i =
       (if is_le (constraints (sign_normalized m) ! i)
        then slack_update (constraints (sign_normalized m) ! i)
               (aux_variable is_le ''s'' (length (variables m)) (constraints (sign_normalized m)) i)
        else constraints (sign_normalized m) ! i)"
proof -
  show "length (fst (slack_pass m)) = length (constraints m)"
    by (simp add: slack_pass_def aux_loop_length sign_normalized_fields)
  show "length (fst (snd (slack_pass m))) =
     length (variables m) + length (filter is_le (constraints (sign_normalized m)))"
    unfolding slack_pass_def
    by (subst aux_loop_vars) (simp add: aux_loop_dict_length)
  show "i < length (constraints m) \<Longrightarrow>
     fst (slack_pass m) ! i =
       (if is_le (constraints (sign_normalized m) ! i)
        then slack_update (constraints (sign_normalized m) ! i)
               (aux_variable is_le ''s'' (length (variables m)) (constraints (sign_normalized m)) i)
        else constraints (sign_normalized m) ! i)"
    unfolding slack_pass_def
    by (subst aux_loop_nth) (simp_all add: sign_normalized_fields)
qed

lemma slack_pass_type:
  assumes "i < length (constraints m)"
  shows "is_ge (fst (slack_pass m) ! i) \<longleftrightarrow> is_ge (constraints (sign_normalized m) ! i)"
    and "c_index (fst (slack_pass m) ! i) = c_index (constraints (sign_normalized m) ! i)"
    and "c_bound (fst (slack_pass m) ! i) = c_bound (constraints (sign_normalized m) ! i)"
  using assms by (auto simp: slack_pass_facts(3))

lemma surplus_pass_facts:
  "length (fst (surplus_pass m)) = length (constraints m)"
  "i < length (constraints m) \<Longrightarrow>
     fst (surplus_pass m) ! i =
       (if is_ge (fst (slack_pass m) ! i)
        then surplus_update (fst (slack_pass m) ! i)
               (aux_variable is_ge ''s'' (length (fst (snd (slack_pass m)))) (fst (slack_pass m)) i)
        else fst (slack_pass m) ! i)"
proof -
  show "length (fst (surplus_pass m)) = length (constraints m)"
    by (simp add: surplus_pass_def aux_loop_length slack_pass_facts)
  show "i < length (constraints m) \<Longrightarrow>
     fst (surplus_pass m) ! i =
       (if is_ge (fst (slack_pass m) ! i)
        then surplus_update (fst (slack_pass m) ! i)
               (aux_variable is_ge ''s'' (length (fst (snd (slack_pass m)))) (fst (slack_pass m)) i)
        else fst (slack_pass m) ! i)"
    unfolding surplus_pass_def
    by (subst aux_loop_nth) (simp_all add: slack_pass_facts)
qed

lemma normal_constraint_nth:
  assumes "i < length (constraints m)"
  shows "constraints (normal_model_of m) ! i =
     (case c_type (constraints (sign_normalized m) ! i) of
        LE \<Rightarrow> slack_update (constraints (sign_normalized m) ! i) (slack_variable_of m i)
      | GE \<Rightarrow> surplus_update (constraints (sign_normalized m) ! i) (surplus_variable_of m i)
      | EQ \<Rightarrow> constraints (sign_normalized m) ! i)"
  using assms
  by (cases "c_type (constraints (sign_normalized m) ! i)")
    (simp_all add: augment_model_passes surplus_pass_facts slack_pass_facts
      slack_variable_of_def surplus_variable_of_def)

lemma slack_variable_index:
  assumes "i < length (constraints m)" "is_le (constraints (sign_normalized m) ! i)"
  shows "length (variables m) \<le> v_index (slack_variable_of m i)"
    and "v_index (slack_variable_of m i) < length (fst (snd (slack_pass m)))"
  using assms count_take_less_total [of i "constraints (sign_normalized m)" is_le]
  by (simp_all add: slack_variable_of_def slack_pass_facts sign_normalized_fields)

lemma surplus_variable_index:
  "length (fst (snd (slack_pass m))) \<le> v_index (surplus_variable_of m i)"
  by (simp add: surplus_variable_of_def)

lemma slack_variable_distinct:
  assumes "i < length (constraints m)" "j < length (constraints m)" "i \<noteq> j"
    "is_le (constraints (sign_normalized m) ! i)" "is_le (constraints (sign_normalized m) ! j)"
  shows "v_index (slack_variable_of m i) \<noteq> v_index (slack_variable_of m j)"
proof (cases "i < j")
  case True
  then show ?thesis
    using count_take_less [of i j "constraints (sign_normalized m)" is_le] assms
    by (simp add: slack_variable_of_def sign_normalized_fields)
next
  case False
  then have "j < i" using assms(3) by simp
  then show ?thesis
    using count_take_less [of j i "constraints (sign_normalized m)" is_le] assms
    by (simp add: slack_variable_of_def sign_normalized_fields)
qed

lemma surplus_variable_distinct:
  assumes "i < length (constraints m)" "j < length (constraints m)" "i \<noteq> j"
    "is_ge (constraints (sign_normalized m) ! i)" "is_ge (constraints (sign_normalized m) ! j)"
  shows "v_index (surplus_variable_of m i) \<noteq> v_index (surplus_variable_of m j)"
proof (cases "i < j")
  case True
  then show ?thesis
    using count_take_less [of i j "fst (slack_pass m)" is_ge] assms
    by (simp add: surplus_variable_of_def slack_pass_facts(1) slack_pass_type(1))
next
  case False
  then have "j < i" using assms(3) by simp
  then show ?thesis
    using count_take_less [of j i "fst (slack_pass m)" is_ge] assms
    by (simp add: surplus_variable_of_def slack_pass_facts(1) slack_pass_type(1))
qed

lemma wf_sign_normalized:
  assumes "wf_model m"
  shows "wf_model (sign_normalized m)"
proof -
  have ci: "c_index (sign_normalize c) = c_index c" for c
    by (simp add: sign_normalize_def invert_constraint_def simplify_constraint_def)
  have co: "coeffs (c_expression (sign_normalize c)) k = 0" if "coeffs (c_expression c) k = 0" for c k
    using that by (simp add: sign_normalize_def invert_constraint_def simplify_constraint_def)
  show ?thesis
    using assms
    by (auto simp: wf_model_def sign_normalized_fields comp_def ci co invert_objective_def)
qed

lemma normal_model_variables:
  "variables (normal_model_of m) =
     variables m @ map fst (slacks_of m) @ map fst (surpluses_of m)"
proof -
  have "fst (snd (surplus_pass m)) = fst (snd (slack_pass m)) @ map fst (snd (snd (surplus_pass m)))"
    unfolding surplus_pass_def by (rule aux_loop_vars)
  moreover have "fst (snd (slack_pass m)) = variables m @ map fst (snd (snd (slack_pass m)))"
    unfolding slack_pass_def by (rule aux_loop_vars)
  ultimately show ?thesis
    by (simp add: augment_model_passes)
qed

lemma slack_in_dict:
  assumes "i < length (constraints m)" "is_le (constraints (sign_normalized m) ! i)"
  shows "(slack_variable_of m i, c_index (constraints (sign_normalized m) ! i)) \<in> set (slacks_of m)"
  unfolding augment_model_passes slack_pass_def slack_variable_of_def
  using assms by (intro aux_loop_dict_member) (simp_all add: sign_normalized_fields)

lemma surplus_in_dict:
  assumes "i < length (constraints m)" "is_ge (constraints (sign_normalized m) ! i)"
  shows "(surplus_variable_of m i, c_index (constraints (sign_normalized m) ! i)) \<in> set (surpluses_of m)"
proof -
  have "(surplus_variable_of m i, c_index (fst (slack_pass m) ! i)) \<in> set (surpluses_of m)"
    unfolding augment_model_passes surplus_pass_def surplus_variable_of_def
    using assms by (intro aux_loop_dict_member) (simp_all add: slack_pass_facts(1) slack_pass_type(1))
  then show ?thesis
    using assms(1) by (simp add: slack_pass_type(2))
qed

lemma surplus_variable_bound:
  assumes "i < length (constraints m)" "is_ge (constraints (sign_normalized m) ! i)"
  shows "v_index (surplus_variable_of m i) < length (variables (normal_model_of m))"
proof -
  have "length (filter is_ge (take i (fst (slack_pass m)))) < length (filter is_ge (fst (slack_pass m)))"
    using assms by (intro count_take_less_total) (simp_all add: slack_pass_facts(1) slack_pass_type(1))
  moreover have "length (variables (normal_model_of m)) =
      length (fst (snd (slack_pass m))) + length (filter is_ge (fst (slack_pass m)))"
    unfolding augment_model_passes surplus_pass_def
    by (subst aux_loop_vars) (simp add: aux_loop_dict_length)
  ultimately show ?thesis
    by (simp add: surplus_variable_of_def)
qed

lemma slack_variable_bound:
  assumes "i < length (constraints m)" "is_le (constraints (sign_normalized m) ! i)"
  shows "v_index (slack_variable_of m i) < length (variables (normal_model_of m))"
proof -
  have "length (fst (snd (slack_pass m))) \<le> length (variables (normal_model_of m))"
    unfolding augment_model_passes surplus_pass_def
    by (subst aux_loop_vars) simp
  with slack_variable_index(2) [OF assms] show ?thesis by simp
qed

lemma sign_normalized_coeffs_zero:
  assumes "wf_model m" "i < length (constraints m)" "length (variables m) \<le> k"
  shows "coeffs (c_expression (constraints (sign_normalized m) ! i)) k = 0"
proof -
  have "wf_model (sign_normalized m)" using assms(1) by (rule wf_sign_normalized)
  moreover have "constraints (sign_normalized m) ! i \<in> set (constraints (sign_normalized m))"
    using assms(2) by (simp add: sign_normalized_fields)
  ultimately show ?thesis
    using assms(3) by (simp add: wf_model_def sign_normalized_fields(1))
qed

lemma normal_constraint_coeffs:
  assumes "i < length (constraints m)"
  shows "coeffs (c_expression (constraints (normal_model_of m) ! i)) k =
     coeffs (c_expression (constraints (sign_normalized m) ! i)) k
       + (if is_le (constraints (sign_normalized m) ! i) \<and> k = v_index (slack_variable_of m i)
          then 1 else 0)
       - (if is_ge (constraints (sign_normalized m) ! i) \<and> k = v_index (surplus_variable_of m i)
          then 1 else 0)"
  using assms
  by (cases "c_type (constraints (sign_normalized m) ! i)")
    (simp_all add: normal_constraint_nth)

lemma slack_surplus_distinct:
  assumes "i < length (constraints m)" "is_le (constraints (sign_normalized m) ! i)"
  shows "v_index (slack_variable_of m i) \<noteq> v_index (surplus_variable_of m j)"
  using slack_variable_index(2) [OF assms] surplus_variable_index [of m j] by simp

lemma slack_fresh:
  assumes "wf_model m" "i < length (constraints m)" "j < length (constraints m)" "j \<noteq> i"
    "is_le (constraints (sign_normalized m) ! i)"
  shows "coeffs (c_expression (constraints (normal_model_of m) ! j)) (v_index (slack_variable_of m i)) = 0"
proof -
  have z: "coeffs (c_expression (constraints (sign_normalized m) ! j)) (v_index (slack_variable_of m i)) = 0"
    using assms slack_variable_index(1) by (intro sign_normalized_coeffs_zero) simp_all
  have a: "is_le (constraints (sign_normalized m) ! j) \<Longrightarrow>
           v_index (slack_variable_of m i) \<noteq> v_index (slack_variable_of m j)"
    using assms by (intro slack_variable_distinct) simp_all
  have b: "v_index (slack_variable_of m i) \<noteq> v_index (surplus_variable_of m j)"
    using assms by (intro slack_surplus_distinct) simp_all
  show ?thesis
    using a b by (auto simp: normal_constraint_coeffs [OF assms(3)] z)
qed

lemma surplus_fresh:
  assumes "wf_model m" "i < length (constraints m)" "j < length (constraints m)" "j \<noteq> i"
    "is_ge (constraints (sign_normalized m) ! i)"
  shows "coeffs (c_expression (constraints (normal_model_of m) ! j)) (v_index (surplus_variable_of m i)) = 0"
proof -
  have le: "length (variables m) \<le> v_index (surplus_variable_of m i)"
    using surplus_variable_index [of m i] by (simp add: slack_pass_facts(2))
  have z: "coeffs (c_expression (constraints (sign_normalized m) ! j)) (v_index (surplus_variable_of m i)) = 0"
    using assms le by (intro sign_normalized_coeffs_zero) simp_all
  have a: "is_ge (constraints (sign_normalized m) ! j) \<Longrightarrow>
           v_index (surplus_variable_of m i) \<noteq> v_index (surplus_variable_of m j)"
    using assms by (intro surplus_variable_distinct) simp_all
  have b: "is_le (constraints (sign_normalized m) ! j) \<Longrightarrow>
           v_index (slack_variable_of m j) \<noteq> v_index (surplus_variable_of m i)"
    using assms by (intro slack_surplus_distinct) simp_all
  show ?thesis
    using a b by (auto simp: normal_constraint_coeffs [OF assms(3)] z)
qed

lemma sign_normalize_bound: "0 \<le> c_bound (sign_normalize c)"
  by (simp add: sign_normalize_def invert_constraint_def)

text \<open>
  C3 (as amended). For every well-formed model and every constraint position \<open>i\<close>,
  the model returned by \<open>_augment_model\<close> has a maximization objective (a minimization
  objective negated, a maximization objective as it was); constraint \<open>i\<close> of the
  simplified model, inverted when its bound is negative, has a bound \<open>\<ge> 0\<close>, which
  the augmented constraint keeps, and its relation is the original one when the bound is
  \<open>\<ge> 0\<close> and the opposite one when the bound is negative; the augmented constraint
  is an equality; if the relation after the inversion is \<open>\<le>\<close> (an original \<open>\<le>\<close>
  with bound \<open>\<ge> 0\<close> or an original \<open>\<ge>\<close> with a negative bound) the constraint
  received a slack variable recorded in \<open>_slacks\<close>, new to the model, with
  coefficient +1 in this constraint and 0 in every other one; if it is \<open>\<ge>\<close> (an
  original \<open>\<ge>\<close> with bound \<open>\<ge> 0\<close> or an original \<open>\<le>\<close> with a negative bound)
  it received a surplus variable recorded in \<open>_surpluses\<close>, new, with coefficient -1
  here and 0 elsewhere; an equality keeps its expression.
\<close>

theorem augment_model_standard_form:
  assumes "wf_model m" and "i < length (constraints m)"
  shows
    "length (constraints (normal_model_of m)) = length (constraints m)
     \<and> objective (normal_model_of m) =
         (if o_type (objective m) = ObjMIN then invert_objective (objective m) else objective m)
     \<and> o_type (objective (normal_model_of m)) = ObjMAX
     \<and> constraints (sign_normalized m) ! i = sign_normalize (constraints m ! i)
     \<and> c_type (constraints (sign_normalized m) ! i) =
         (if c_bound (simplify_constraint (constraints m ! i)) < 0
          then invert_type (c_type (constraints m ! i)) else c_type (constraints m ! i))
     \<and> 0 \<le> c_bound (constraints (sign_normalized m) ! i)
     \<and> c_bound (constraints (normal_model_of m) ! i) = c_bound (constraints (sign_normalized m) ! i)
     \<and> c_type (constraints (normal_model_of m) ! i) = EQ
     \<and> (c_type (constraints (sign_normalized m) ! i) = LE \<longrightarrow>
          (\<exists>v. (v, c_index (constraints m ! i)) \<in> set (slacks_of m)
             \<and> v \<in> set (variables (normal_model_of m))
             \<and> length (variables m) \<le> v_index v
             \<and> c_expression (constraints (normal_model_of m) ! i) =
                 expr_add (c_expression (constraints (sign_normalized m) ! i)) (expr_of_variable v)
             \<and> coeffs (c_expression (constraints (normal_model_of m) ! i)) (v_index v) = 1
             \<and> (\<forall>j < length (constraints m). j \<noteq> i \<longrightarrow>
                   coeffs (c_expression (constraints (normal_model_of m) ! j)) (v_index v) = 0)))
     \<and> (c_type (constraints (sign_normalized m) ! i) = GE \<longrightarrow>
          (\<exists>v. (v, c_index (constraints m ! i)) \<in> set (surpluses_of m)
             \<and> v \<in> set (variables (normal_model_of m))
             \<and> length (variables m) \<le> v_index v
             \<and> c_expression (constraints (normal_model_of m) ! i) =
                 expr_sub (c_expression (constraints (sign_normalized m) ! i)) (expr_of_variable v)
             \<and> coeffs (c_expression (constraints (normal_model_of m) ! i)) (v_index v) = - 1
             \<and> (\<forall>j < length (constraints m). j \<noteq> i \<longrightarrow>
                   coeffs (c_expression (constraints (normal_model_of m) ! j)) (v_index v) = 0)))
     \<and> (c_type (constraints (sign_normalized m) ! i) = EQ \<longrightarrow>
          c_expression (constraints (normal_model_of m) ! i) =
            c_expression (constraints (sign_normalized m) ! i))"
proof -
  let ?c = "constraints (sign_normalized m) ! i"
  let ?c' = "constraints (normal_model_of m) ! i"
  have c: "?c = sign_normalize (constraints m ! i)"
    using assms(2) by (simp add: sign_normalized_fields)
  have ci: "c_index ?c = c_index (constraints m ! i)"
    by (simp add: c sign_normalize_def invert_constraint_def simplify_constraint_def)
  have len: "length (constraints (normal_model_of m)) = length (constraints m)"
    by (simp add: augment_model_passes surplus_pass_facts)
  have obj: "objective (normal_model_of m) =
         (if o_type (objective m) = ObjMIN then invert_objective (objective m) else objective m)"
    by (simp add: augment_model_passes sign_normalized_fields)
  have max: "o_type (objective (normal_model_of m)) = ObjMAX"
    by (cases "o_type (objective m)") (simp_all add: obj invert_objective_def)
  have rel: "c_type ?c =
         (if c_bound (simplify_constraint (constraints m ! i)) < 0
          then invert_type (c_type (constraints m ! i)) else c_type (constraints m ! i))"
    by (simp add: c sign_normalize_def invert_constraint_def simplify_constraint_def)
  have bnd: "0 \<le> c_bound ?c"
    by (simp add: c sign_normalize_bound)
  have bnd': "c_bound ?c' = c_bound ?c" and ty: "c_type ?c' = EQ"
    using assms(2) by (cases "c_type ?c"; simp add: normal_constraint_nth)+
  have le: "\<exists>v. (v, c_index (constraints m ! i)) \<in> set (slacks_of m)
             \<and> v \<in> set (variables (normal_model_of m))
             \<and> length (variables m) \<le> v_index v
             \<and> c_expression ?c' = expr_add (c_expression ?c) (expr_of_variable v)
             \<and> coeffs (c_expression ?c') (v_index v) = 1
             \<and> (\<forall>j < length (constraints m). j \<noteq> i \<longrightarrow>
                   coeffs (c_expression (constraints (normal_model_of m) ! j)) (v_index v) = 0)"
    if t: "c_type ?c = LE"
  proof (intro exI [of _ "slack_variable_of m i"] conjI allI impI)
    show "(slack_variable_of m i, c_index (constraints m ! i)) \<in> set (slacks_of m)"
      using slack_in_dict [OF assms(2) t] by (simp add: ci)
    then show "slack_variable_of m i \<in> set (variables (normal_model_of m))"
      by (force simp: normal_model_variables)
    show "length (variables m) \<le> v_index (slack_variable_of m i)"
      using assms(2) t by (rule slack_variable_index(1))
    then have "coeffs (c_expression ?c) (v_index (slack_variable_of m i)) = 0"
      using assms by (intro sign_normalized_coeffs_zero)
    then show "coeffs (c_expression ?c') (v_index (slack_variable_of m i)) = 1"
      using t by (simp add: normal_constraint_nth [OF assms(2)])
    show "c_expression ?c' = expr_add (c_expression ?c) (expr_of_variable (slack_variable_of m i))"
      using t by (simp add: normal_constraint_nth [OF assms(2)])
    show "coeffs (c_expression (constraints (normal_model_of m) ! j)) (v_index (slack_variable_of m i)) = 0"
      if "j < length (constraints m)" "j \<noteq> i" for j
      using assms that t by (intro slack_fresh)
  qed
  have ge: "\<exists>v. (v, c_index (constraints m ! i)) \<in> set (surpluses_of m)
             \<and> v \<in> set (variables (normal_model_of m))
             \<and> length (variables m) \<le> v_index v
             \<and> c_expression ?c' = expr_sub (c_expression ?c) (expr_of_variable v)
             \<and> coeffs (c_expression ?c') (v_index v) = - 1
             \<and> (\<forall>j < length (constraints m). j \<noteq> i \<longrightarrow>
                   coeffs (c_expression (constraints (normal_model_of m) ! j)) (v_index v) = 0)"
    if t: "c_type ?c = GE"
  proof (intro exI [of _ "surplus_variable_of m i"] conjI allI impI)
    show "(surplus_variable_of m i, c_index (constraints m ! i)) \<in> set (surpluses_of m)"
      using surplus_in_dict [OF assms(2) t] by (simp add: ci)
    then show "surplus_variable_of m i \<in> set (variables (normal_model_of m))"
      by (force simp: normal_model_variables)
    show l: "length (variables m) \<le> v_index (surplus_variable_of m i)"
      using surplus_variable_index [of m i] by (simp add: slack_pass_facts(2))
    then have "coeffs (c_expression ?c) (v_index (surplus_variable_of m i)) = 0"
      using assms by (intro sign_normalized_coeffs_zero)
    then show "coeffs (c_expression ?c') (v_index (surplus_variable_of m i)) = - 1"
      using t by (simp add: normal_constraint_nth [OF assms(2)])
    show "c_expression ?c' = expr_sub (c_expression ?c) (expr_of_variable (surplus_variable_of m i))"
      using t by (simp add: normal_constraint_nth [OF assms(2)])
    show "coeffs (c_expression (constraints (normal_model_of m) ! j)) (v_index (surplus_variable_of m i)) = 0"
      if "j < length (constraints m)" "j \<noteq> i" for j
      using assms that t by (intro surplus_fresh)
  qed
  have eq: "c_expression ?c' = c_expression ?c" if "c_type ?c = EQ"
    using that by (simp add: normal_constraint_nth [OF assms(2)])
  from len obj max c rel bnd bnd' ty le ge eq show ?thesis
    by blast
qed

lemma wf_example_04: "wf_model example_04"
  by (simp add: wf_model_def example_04_def new_model_def create_variable_def add_constraint_def
      maximize_def simplify_constraint_def expr_add_def expr_scale_def expr_of_variable_def
      expr_zero_def Let_def)

lemma wf_example_05: "wf_model example_05"
  by (simp add: wf_model_def example_05_def new_model_def create_variable_def add_constraint_def
      maximize_def simplify_constraint_def expr_add_def expr_scale_def expr_sub_def expr_of_variable_def
      expr_zero_def Let_def)

text \<open>The theorem at the first constraint of example_04 (\<open>\<le>\<close> with bound 20, a
  slack), at the first constraint of example_05 (\<open>\<ge>\<close> with bound 10, a surplus) and
  at the second constraint of example_05 (\<open>\<le>\<close> with bound -10: inverted, a
  surplus).\<close>

theorem augment_model_standard_form_witness:
  "wf_model example_04 \<and> (0::nat) < length (constraints example_04)
   \<and> c_type (constraints (sign_normalized example_04) ! 0) = LE
   \<and> c_type (constraints (normal_model_of example_04) ! 0) = EQ
   \<and> (\<exists>v. (v, c_index (constraints example_04 ! 0)) \<in> set (slacks_of example_04)
          \<and> v \<in> set (variables (normal_model_of example_04))
          \<and> length (variables example_04) \<le> v_index v
          \<and> coeffs (c_expression (constraints (normal_model_of example_04) ! 0)) (v_index v) = 1)
   \<and> wf_model example_05 \<and> (0::nat) < length (constraints example_05)
   \<and> c_type (constraints (sign_normalized example_05) ! 0) = GE
   \<and> (\<exists>v. (v, c_index (constraints example_05 ! 0)) \<in> set (surpluses_of example_05)
          \<and> length (variables example_05) \<le> v_index v
          \<and> coeffs (c_expression (constraints (normal_model_of example_05) ! 0)) (v_index v) = - 1)
   \<and> (1::nat) < length (constraints example_05)
   \<and> c_type (constraints example_05 ! 1) = LE
   \<and> c_bound (simplify_constraint (constraints example_05 ! 1)) < 0
   \<and> c_type (constraints (sign_normalized example_05) ! 1) = GE
   \<and> (\<exists>v. (v, c_index (constraints example_05 ! 1)) \<in> set (surpluses_of example_05)
          \<and> length (variables example_05) \<le> v_index v
          \<and> coeffs (c_expression (constraints (normal_model_of example_05) ! 1)) (v_index v) = - 1)"
proof -
  have a1: "wf_model example_04" by (rule wf_example_04)
  have a2: "(0::nat) < length (constraints example_04)" by code_simp
  have a3: "c_type (constraints (sign_normalized example_04) ! 0) = LE" by code_simp
  have b1: "wf_model example_05" by (rule wf_example_05)
  have b2: "(0::nat) < length (constraints example_05)" by code_simp
  have b3: "c_type (constraints (sign_normalized example_05) ! 0) = GE" by code_simp
  have c2: "(1::nat) < length (constraints example_05)" by code_simp
  have c3: "c_type (constraints example_05 ! 1) = LE" by code_simp
  have c4: "c_bound (simplify_constraint (constraints example_05 ! 1)) < 0" by code_simp
  note A = augment_model_standard_form [OF a1 a2]
  note B = augment_model_standard_form [OF b1 b2]
  note C = augment_model_standard_form [OF b1 c2]
  have A1: "c_type (constraints (normal_model_of example_04) ! 0) = EQ"
    using A by blast
  have A2: "\<exists>v. (v, c_index (constraints example_04 ! 0)) \<in> set (slacks_of example_04)
          \<and> v \<in> set (variables (normal_model_of example_04))
          \<and> length (variables example_04) \<le> v_index v
          \<and> coeffs (c_expression (constraints (normal_model_of example_04) ! 0)) (v_index v) = 1"
    using A a3 by blast
  have B2: "\<exists>v. (v, c_index (constraints example_05 ! 0)) \<in> set (surpluses_of example_05)
          \<and> length (variables example_05) \<le> v_index v
          \<and> coeffs (c_expression (constraints (normal_model_of example_05) ! 0)) (v_index v) = - 1"
    using B b3 by blast
  have "c_type (constraints (sign_normalized example_05) ! 1) =
         (if c_bound (simplify_constraint (constraints example_05 ! 1)) < 0
          then invert_type (c_type (constraints example_05 ! 1)) else c_type (constraints example_05 ! 1))"
    using C by blast
  then have C1: "c_type (constraints (sign_normalized example_05) ! 1) = GE"
    using c3 c4 by (simp add: invert_type_def)
  have C2: "\<exists>v. (v, c_index (constraints example_05 ! 1)) \<in> set (surpluses_of example_05)
          \<and> length (variables example_05) \<le> v_index v
          \<and> coeffs (c_expression (constraints (normal_model_of example_05) ! 1)) (v_index v) = - 1"
    using C C1 by blast
  show ?thesis
    by (intro conjI a1 a2 a3 A1 A2 b1 b2 b3 B2 c2 c3 c4 C1 C2)
qed

text \<open>
  The claim as the spec words it, with the relation the caller wrote, fails. The second
  constraint of example_05, \<open>x1 + 2 x2 - x3 \<le> -10\<close>, is a \<open>\<le>\<close> constraint; its bound
  is negative, so it is inverted before the slack pass, gets no slack variable and gets
  the surplus variable with index 4, with coefficient -1.
\<close>

theorem augment_model_counterexample:
  "c_type (constraints example_05 ! 1) = LE
   \<and> c_index (constraints example_05 ! 1) = 1
   \<and> \<not> recorded_in (slacks_of example_05) 1
   \<and> recorded_in (surpluses_of example_05) 1
   \<and> map v_index (map fst (surpluses_of example_05)) = [3, 4]
   \<and> map snd (surpluses_of example_05) = [0, 1]
   \<and> coeffs (c_expression (constraints (normal_model_of example_05) ! 1)) 4 = - 1
   \<and> c_type (constraints (normal_model_of example_05) ! 1) = EQ"
  by code_simp

lemma wf_normal_model:
  assumes "wf_model m"
  shows "wf_model (normal_model_of m)"
proof -
  have wn: "wf_model (sign_normalized m)" using assms by (rule wf_sign_normalized)
  have v0: "map v_index (variables m) = [0..<length (variables m)]"
    using assms by (simp add: wf_model_def)
  have v1: "map v_index (fst (snd (slack_pass m))) = [0..<length (fst (snd (slack_pass m)))]"
    unfolding slack_pass_def using v0 by (rule aux_loop_vars_indices)
  have v2: "map v_index (variables (normal_model_of m)) = [0..<length (variables (normal_model_of m))]"
    unfolding augment_model_passes surplus_pass_def
    using aux_loop_vars_indices [OF v1 [unfolded slack_pass_def]] by (simp add: slack_pass_def)
  have c1: "map c_index (fst (slack_pass m)) = map c_index (constraints (sign_normalized m))"
    unfolding slack_pass_def by (rule aux_loop_c_index) simp
  have c2: "map c_index (fst (surplus_pass m)) = map c_index (fst (slack_pass m))"
    unfolding surplus_pass_def by (rule aux_loop_c_index) simp
  have c3: "map c_index (constraints (normal_model_of m)) = [0..<length (constraints (normal_model_of m))]"
    using wn by (simp add: augment_model_passes c1 c2 wf_model_def surplus_pass_facts(1)
        sign_normalized_fields(2))
  have len: "length (variables m) \<le> length (variables (normal_model_of m))"
    by (simp add: normal_model_variables)
  have co: "coeffs (c_expression c) k = 0"
    if c: "c \<in> set (constraints (normal_model_of m))" and k: "length (variables (normal_model_of m)) \<le> k"
    for c k
  proof -
    from c obtain i where i: "i < length (constraints m)" and ci: "c = constraints (normal_model_of m) ! i"
      by (auto simp: in_set_conv_nth augment_model_passes surplus_pass_facts(1))
    have z: "coeffs (c_expression (constraints (sign_normalized m) ! i)) k = 0"
      using assms i len k by (intro sign_normalized_coeffs_zero) simp_all
    have a: "is_le (constraints (sign_normalized m) ! i) \<Longrightarrow> k \<noteq> v_index (slack_variable_of m i)"
      using slack_variable_bound [OF i] k by auto
    have b: "is_ge (constraints (sign_normalized m) ! i) \<Longrightarrow> k \<noteq> v_index (surplus_variable_of m i)"
      using surplus_variable_bound [OF i] k by auto
    show ?thesis
      using a b by (auto simp: ci normal_constraint_coeffs [OF i] z)
  qed
  have ob: "coeffs (o_expression (objective (normal_model_of m))) k = 0"
    if "length (variables (normal_model_of m)) \<le> k" for k
    using wn that len by (simp add: augment_model_passes wf_model_def sign_normalized_fields(1))
  show ?thesis
    unfolding wf_model_def using v2 c3 co ob by blast
qed

section \<open>The presolve model\<close>

lemma create_presolve_model_pass:
  "create_presolve_model slacks m =
     (m\<lparr>variables := fst (snd (artificial_pass slacks m)),
        constraints := fst (artificial_pass slacks m),
        objective := (objective m)\<lparr>o_expression :=
           fold (\<lambda>(v, ci) e. expr_add e (expr_of_variable v)) (snd (snd (artificial_pass slacks m)))
             (o_expression (objective m))\<rparr>\<rparr>,
      snd (snd (artificial_pass slacks m)))"
proof -
  have "(\<lambda>c. c_index c \<notin> set (map snd slacks)) = lacks_slack slacks"
    by (simp add: lacks_slack_def fun_eq_iff)
  then show ?thesis
    by (simp add: create_presolve_model_def add_artificial_variables_def add_artificial_loop_aux
        artificial_pass_def Let_def case_prod_beta)
qed

lemma artificial_pass_facts:
  "length (fst (artificial_pass slacks m)) = length (constraints m)"
  "i < length (constraints m) \<Longrightarrow>
     fst (artificial_pass slacks m) ! i =
       (if lacks_slack slacks (constraints m ! i)
        then artificial_update (constraints m ! i) (artificial_variable_of slacks m i)
        else constraints m ! i)"
  "snd (snd (artificial_pass slacks m)) =
     map (\<lambda>i. (artificial_variable_of slacks m i, c_index (constraints m ! i)))
       (filter (\<lambda>i. lacks_slack slacks (constraints m ! i)) [0..<length (constraints m)])"
  "fst (snd (artificial_pass slacks m)) = variables m @ map fst (snd (snd (artificial_pass slacks m)))"
  "length (fst (snd (artificial_pass slacks m))) =
     length (variables m) + length (filter (lacks_slack slacks) (constraints m))"
proof -
  show "length (fst (artificial_pass slacks m)) = length (constraints m)"
    by (simp add: artificial_pass_def aux_loop_length)
  show "i < length (constraints m) \<Longrightarrow>
     fst (artificial_pass slacks m) ! i =
       (if lacks_slack slacks (constraints m ! i)
        then artificial_update (constraints m ! i) (artificial_variable_of slacks m i)
        else constraints m ! i)"
    by (simp add: artificial_pass_def aux_loop_nth artificial_variable_of_def)
  show "snd (snd (artificial_pass slacks m)) =
     map (\<lambda>i. (artificial_variable_of slacks m i, c_index (constraints m ! i)))
       (filter (\<lambda>i. lacks_slack slacks (constraints m ! i)) [0..<length (constraints m)])"
    unfolding artificial_pass_def artificial_variable_of_def by (rule aux_loop_dict)
  show v: "fst (snd (artificial_pass slacks m)) = variables m @ map fst (snd (snd (artificial_pass slacks m)))"
    unfolding artificial_pass_def by (rule aux_loop_vars)
  show "length (fst (snd (artificial_pass slacks m))) =
     length (variables m) + length (filter (lacks_slack slacks) (constraints m))"
    by (subst v) (simp add: artificial_pass_def aux_loop_dict_length)
qed

lemma artificial_variable_index:
  assumes "i < length (constraints m)" "lacks_slack slacks (constraints m ! i)"
  shows "length (variables m) \<le> v_index (artificial_variable_of slacks m i)"
    and "v_index (artificial_variable_of slacks m i) < length (fst (snd (artificial_pass slacks m)))"
  using assms count_take_less_total [of i "constraints m" "lacks_slack slacks"]
  by (simp_all add: artificial_variable_of_def artificial_pass_facts(5))

lemma artificial_variable_distinct:
  assumes "i < length (constraints m)" "j < length (constraints m)" "i \<noteq> j"
    "lacks_slack slacks (constraints m ! i)" "lacks_slack slacks (constraints m ! j)"
  shows "v_index (artificial_variable_of slacks m i) \<noteq> v_index (artificial_variable_of slacks m j)"
proof (cases "i < j")
  case True
  then show ?thesis
    using count_take_less [of i j "constraints m" "lacks_slack slacks"] assms
    by (simp add: artificial_variable_of_def)
next
  case False
  then have "j < i" using assms(3) by simp
  then show ?thesis
    using count_take_less [of j i "constraints m" "lacks_slack slacks"] assms
    by (simp add: artificial_variable_of_def)
qed

lemma fold_add_variables_coeffs:
  "coeffs (fold (\<lambda>(v, ci) e. expr_add e (expr_of_variable v)) d e) k =
     coeffs e k + real (count_list (map (v_index \<circ> fst) d) k)"
  by (induction d arbitrary: e) (auto simp: case_prod_beta)

lemma presolve_objective_coeffs:
  "coeffs (o_expression (objective (fst (create_presolve_model slacks m)))) k =
     coeffs (o_expression (objective m)) k
       + (if length (variables m) \<le> k \<and> k < length (variables (fst (create_presolve_model slacks m)))
          then 1 else 0)"
proof -
  have "map (v_index \<circ> fst) (snd (snd (artificial_pass slacks m))) =
      [length (variables m)..<length (variables m) + length (filter (lacks_slack slacks) (constraints m))]"
    unfolding artificial_pass_def by (rule aux_loop_dict_indices)
  then show ?thesis
    by (simp add: create_presolve_model_pass fold_add_variables_coeffs count_list_upt
        artificial_pass_facts(5))
qed

lemma presolve_model_fields:
  "constraints (fst (create_presolve_model slacks m)) = fst (artificial_pass slacks m)"
  "variables (fst (create_presolve_model slacks m)) = fst (snd (artificial_pass slacks m))"
  "snd (create_presolve_model slacks m) = snd (snd (artificial_pass slacks m))"
  by (simp_all add: create_presolve_model_pass)

lemma presolve_constraint_coeffs:
  assumes "j < length (constraints m)"
  shows "coeffs (c_expression (constraints (fst (create_presolve_model slacks m)) ! j)) k =
      coeffs (c_expression (constraints m ! j)) k
        + (if lacks_slack slacks (constraints m ! j) \<and> k = v_index (artificial_variable_of slacks m j)
           then 1 else 0)"
  using assms by (simp add: presolve_model_fields artificial_pass_facts(2))

lemma presolve_variables_indices:
  assumes "wf_model m"
  shows "map v_index (variables (fst (create_presolve_model slacks m))) =
           [0..<length (variables (fst (create_presolve_model slacks m)))]"
proof -
  have "map v_index (variables m) = [0..<length (variables m)]"
    using assms by (simp add: wf_model_def)
  then show ?thesis
    unfolding presolve_model_fields artificial_pass_def by (rule aux_loop_vars_indices)
qed

lemma presolve_of_pair:
  "create_presolve_model (slacks_of m) (normal_model_of m) = (presolve_model_of m, artificial_of m)"
  by (simp add: presolve_model_of_def artificial_of_def)

text \<open>
  C4 (as amended). When the presolve model is created from a well-formed model, an
  artificial variable, new to the model, with coefficient +1 is added to exactly those
  constraints that have no slack variable (a constraint that received a surplus
  variable gets one too), every other constraint is left as it was, and each artificial variable
  is also added to the objective's expression, where its coefficient is 1.
\<close>

theorem create_presolve_model_artificial:
  assumes "wf_model m" and "create_presolve_model slacks m = (pm, art)"
    and "i < length (constraints m)"
  shows
    "length (constraints pm) = length (constraints m)
     \<and> set (map snd art) =
         {c_index c | c. c \<in> set (constraints m) \<and> c_index c \<notin> set (map snd slacks)}
     \<and> (c_index (constraints m ! i) \<notin> set (map snd slacks) \<longrightarrow>
          (\<exists>v. (v, c_index (constraints m ! i)) \<in> set art
             \<and> v \<in> set (variables pm)
             \<and> length (variables m) \<le> v_index v
             \<and> c_expression (constraints pm ! i) =
                 expr_add (c_expression (constraints m ! i)) (expr_of_variable v)
             \<and> coeffs (c_expression (constraints pm ! i)) (v_index v) = 1
             \<and> (\<forall>j < length (constraints m). j \<noteq> i \<longrightarrow>
                   coeffs (c_expression (constraints pm ! j)) (v_index v) = 0)
             \<and> coeffs (o_expression (objective pm)) (v_index v) = 1))
     \<and> (c_index (constraints m ! i) \<in> set (map snd slacks) \<longrightarrow>
          constraints pm ! i = constraints m ! i
          \<and> c_index (constraints m ! i) \<notin> set (map snd art))
     \<and> o_expression (objective pm) =
         fold (\<lambda>(v, ci) e. expr_add e (expr_of_variable v)) art (o_expression (objective m))"
proof -
  let ?c = "constraints m ! i"
  let ?av = "artificial_variable_of slacks m"
  have pm: "pm = fst (create_presolve_model slacks m)" and art: "art = snd (create_presolve_model slacks m)"
    using assms(2) by simp_all
  have cs: "constraints pm = fst (artificial_pass slacks m)"
    and vs: "variables pm = fst (snd (artificial_pass slacks m))"
    and ar: "art = snd (snd (artificial_pass slacks m))"
    by (simp_all add: pm art create_presolve_model_pass)
  have len: "length (constraints pm) = length (constraints m)"
    by (simp add: cs artificial_pass_facts(1))
  have dict: "set (map snd art) =
         {c_index c | c. c \<in> set (constraints m) \<and> c_index c \<notin> set (map snd slacks)}"
    by (auto simp: ar artificial_pass_facts(3) lacks_slack_def in_set_conv_nth image_iff)
  have obj: "o_expression (objective pm) =
         fold (\<lambda>(v, ci) e. expr_add e (expr_of_variable v)) art (o_expression (objective m))"
    by (simp add: pm ar create_presolve_model_pass)
  have zero: "coeffs (c_expression (constraints m ! j)) k = 0"
    if "j < length (constraints m)" "length (variables m) \<le> k" for j k
    using assms(1) that by (simp add: wf_model_def)
  have coef: "coeffs (c_expression (constraints pm ! j)) k =
      coeffs (c_expression (constraints m ! j)) k
        + (if lacks_slack slacks (constraints m ! j) \<and> k = v_index (?av j) then 1 else 0)"
    if "j < length (constraints m)" for j k
    using that by (simp add: cs artificial_pass_facts(2))
  have yes: "\<exists>v. (v, c_index ?c) \<in> set art
             \<and> v \<in> set (variables pm)
             \<and> length (variables m) \<le> v_index v
             \<and> c_expression (constraints pm ! i) = expr_add (c_expression ?c) (expr_of_variable v)
             \<and> coeffs (c_expression (constraints pm ! i)) (v_index v) = 1
             \<and> (\<forall>j < length (constraints m). j \<noteq> i \<longrightarrow>
                   coeffs (c_expression (constraints pm ! j)) (v_index v) = 0)
             \<and> coeffs (o_expression (objective pm)) (v_index v) = 1"
    if n: "c_index ?c \<notin> set (map snd slacks)"
  proof (intro exI [of _ "?av i"] conjI allI impI)
    have l: "lacks_slack slacks ?c" using n by (simp add: lacks_slack_def)
    show m1: "(?av i, c_index ?c) \<in> set art"
      using assms(3) l by (auto simp: ar artificial_pass_facts(3) image_iff)
    then show "?av i \<in> set (variables pm)"
      by (force simp: vs ar artificial_pass_facts(4))
    show lo: "length (variables m) \<le> v_index (?av i)"
      using assms(3) l by (rule artificial_variable_index(1))
    have hi: "v_index (?av i) < length (variables pm)"
      using artificial_variable_index(2) [OF assms(3) l] by (simp add: vs)
    show "c_expression (constraints pm ! i) = expr_add (c_expression ?c) (expr_of_variable (?av i))"
      using assms(3) l by (simp add: cs artificial_pass_facts(2))
    show "coeffs (c_expression (constraints pm ! i)) (v_index (?av i)) = 1"
      using l zero [OF assms(3) lo] by (simp add: coef [OF assms(3)])
    show "coeffs (c_expression (constraints pm ! j)) (v_index (?av i)) = 0"
      if j: "j < length (constraints m)" "j \<noteq> i" for j
    proof -
      have "lacks_slack slacks (constraints m ! j) \<Longrightarrow> v_index (?av i) \<noteq> v_index (?av j)"
        using assms(3) j l by (intro artificial_variable_distinct) simp_all
      then show ?thesis
        using zero [OF j(1) lo] by (auto simp: coef [OF j(1)])
    qed
    have "coeffs (o_expression (objective m)) (v_index (?av i)) = 0"
      using assms(1) lo by (simp add: wf_model_def)
    then show "coeffs (o_expression (objective pm)) (v_index (?av i)) = 1"
      using lo hi by (simp add: pm presolve_objective_coeffs)
  qed
  have no: "constraints pm ! i = ?c \<and> c_index ?c \<notin> set (map snd art)"
    if y: "c_index ?c \<in> set (map snd slacks)"
  proof
    show "constraints pm ! i = ?c"
      using assms(3) y by (simp add: cs artificial_pass_facts(2) lacks_slack_def)
    show "c_index ?c \<notin> set (map snd art)"
      using y by (force simp: ar artificial_pass_facts(3) lacks_slack_def)
  qed
  from len dict yes no obj show ?thesis by blast
qed

text \<open>The theorem at the two constraints of example_04: the first has a slack and is left
  alone, the second gets the artificial variable.\<close>

theorem create_presolve_model_artificial_witness:
  "wf_model (normal_model_of example_04)
   \<and> (1::nat) < length (constraints (normal_model_of example_04))
   \<and> c_index (constraints (normal_model_of example_04) ! 1) \<notin> set (map snd (slacks_of example_04))
   \<and> (\<exists>v. (v, c_index (constraints (normal_model_of example_04) ! 1)) \<in> set (artificial_of example_04)
          \<and> length (variables (normal_model_of example_04)) \<le> v_index v
          \<and> coeffs (c_expression (constraints (presolve_model_of example_04) ! 1)) (v_index v) = 1
          \<and> coeffs (o_expression (objective (presolve_model_of example_04))) (v_index v) = 1)
   \<and> c_index (constraints (normal_model_of example_04) ! 0) \<in> set (map snd (slacks_of example_04))
   \<and> constraints (presolve_model_of example_04) ! 0 = constraints (normal_model_of example_04) ! 0"
proof -
  have w: "wf_model (normal_model_of example_04)"
    using wf_example_04 by (rule wf_normal_model)
  have i1: "(1::nat) < length (constraints (normal_model_of example_04))" by code_simp
  have i0: "(0::nat) < length (constraints (normal_model_of example_04))" by code_simp
  have n1: "c_index (constraints (normal_model_of example_04) ! 1) \<notin> set (map snd (slacks_of example_04))"
    by code_simp
  have y0: "c_index (constraints (normal_model_of example_04) ! 0) \<in> set (map snd (slacks_of example_04))"
    by code_simp
  note A = create_presolve_model_artificial [OF w presolve_of_pair i1]
  note B = create_presolve_model_artificial [OF w presolve_of_pair i0]
  have A1: "\<exists>v. (v, c_index (constraints (normal_model_of example_04) ! 1)) \<in> set (artificial_of example_04)
          \<and> length (variables (normal_model_of example_04)) \<le> v_index v
          \<and> coeffs (c_expression (constraints (presolve_model_of example_04) ! 1)) (v_index v) = 1
          \<and> coeffs (o_expression (objective (presolve_model_of example_04))) (v_index v) = 1"
    using A n1 by blast
  have B1: "constraints (presolve_model_of example_04) ! 0 = constraints (normal_model_of example_04) ! 0"
    using B y0 by blast
  show ?thesis
    by (intro conjI w i1 n1 A1 y0 B1)
qed

text \<open>
  The first constraint of example_05 is a \<open>\<ge>\<close> constraint: it has an auxiliary
  variable, its surplus, and gets an artificial variable all the same.
\<close>

theorem artificial_counterexample:
  "c_index (constraints (normal_model_of example_05) ! 0) = 0
   \<and> has_artificial (artificial_of example_05) 0
   \<and> \<not> lacks_auxiliary (slacks_of example_05) (surpluses_of example_05) 0"
  by code_simp

section \<open>The Phase-I tableau\<close>

lemma fold_mark_columns_row:
  "tb \<noteq> [] \<Longrightarrow>
     fold (\<lambda>(v, ci) tb. tb[0 := (tb ! 0)[v_index v := 1]]) d tb =
       tb[0 := fold (\<lambda>(v, ci) r. r[v_index v := (1::real)]) d (tb ! 0)]"
proof (induction d arbitrary: tb)
  case Nil
  then show ?case by simp
next
  case (Cons a d)
  obtain v ci where a: "a = (v, ci)" by (cases a)
  have "tb[0 := (tb ! 0)[v_index v := 1]] \<noteq> []" using Cons.prems by simp
  from Cons.IH [OF this] Cons.prems show ?case
    by (simp add: a)
qed

lemma fold_mark_columns_nth:
  "length (fold (\<lambda>(v, ci) r. r[v_index v := (1::real)]) d r) = length r"
  "j < length r \<Longrightarrow>
     fold (\<lambda>(v, ci) r. r[v_index v := (1::real)]) d r ! j =
       (if j \<in> set (map (v_index \<circ> fst) d) then 1 else r ! j)"
proof -
  show l: "length (fold (\<lambda>(v, ci) r. r[v_index v := (1::real)]) d r) = length r" for r
    by (induction d arbitrary: r) (simp_all add: case_prod_beta)
  show "j < length r \<Longrightarrow>
     fold (\<lambda>(v, ci) r. r[v_index v := (1::real)]) d r ! j =
       (if j \<in> set (map (v_index \<circ> fst) d) then 1 else r ! j)"
    by (induction d arbitrary: r) (auto simp: case_prod_beta nth_list_update l)
qed

lemma fold_subtract_rows_row:
  "tb \<noteq> [] \<Longrightarrow>
     fold (\<lambda>(v, ci) tb. tb[0 := map2 (-) (tb ! 0) (tb ! (ci + 1))]) d tb =
       tb[0 := fold (\<lambda>(v, ci) r. map2 (-) r (tb ! (ci + 1))) d (tb ! 0 :: real list)]"
proof (induction d arbitrary: tb)
  case Nil
  then show ?case by simp
next
  case (Cons a d)
  obtain v ci where a: "a = (v, ci)" by (cases a)
  let ?tb = "tb[0 := map2 (-) (tb ! 0) (tb ! (ci + 1))]"
  have ne: "?tb \<noteq> []" using Cons.prems by simp
  have rows: "?tb ! (k + 1) = tb ! (k + 1)" for k by simp
  from Cons.IH [OF ne] Cons.prems show ?case
    by (simp add: a)
qed

lemma fold_subtract_rows_length:
  "length r = n \<Longrightarrow> \<forall>e \<in> set d. length (tb ! (snd e + 1)) = n \<Longrightarrow>
     length (fold (\<lambda>(v, ci) r. map2 (-) r (tb ! (ci + 1))) d (r :: real list)) = n"
  by (induction d arbitrary: r) (auto simp: case_prod_beta)

lemma fold_subtract_rows_nth:
  "length r = n \<Longrightarrow> \<forall>e \<in> set d. length (tb ! (snd e + 1)) = n \<Longrightarrow> j < n \<Longrightarrow>
     fold (\<lambda>(v, ci) r. map2 (-) r (tb ! (ci + 1))) d r ! j =
       r ! j - (\<Sum>e\<leftarrow>d. (tb ! (snd e + 1) ! j :: real))"
  by (induction d arbitrary: r) (auto simp: case_prod_beta)

lemma coefficients_nth:
  assumes "map v_index (variables pm) = [0..<length (variables pm)]" "k < length (variables pm)"
  shows "coefficients e pm ! k = coeffs e k"
proof -
  have "v_index (variables pm ! k) = map v_index (variables pm) ! k"
    using assms(2) by simp
  also have "\<dots> = k" using assms by simp
  finally show ?thesis using assms(2) by (simp add: coefficients_def)
qed

lemma basic_initial_tableau_rows:
  "length (table (basic_initial_tableau pm)) = Suc (length (constraints pm))"
  "length (table (basic_initial_tableau pm) ! 0) = Suc (length (variables pm))"
  "r < length (constraints pm) \<Longrightarrow>
     table (basic_initial_tableau pm) ! (r + 1) =
       coefficients (c_expression (constraints pm ! r)) pm @ [c_bound (constraints pm ! r)]"
  by (simp_all add: basic_initial_tableau_def coefficients_def)

lemma presolve_initial_tableau_table:
  "table (presolve_initial_tableau art pm) =
     (table (basic_initial_tableau pm))
       [0 := fold (\<lambda>(v, ci) r. map2 (-) r (table (basic_initial_tableau pm) ! (ci + 1))) art
               (fold (\<lambda>(v, ci) r. r[v_index v := 1]) art
                  (map (\<lambda>x. 0) (table (basic_initial_tableau pm) ! 0)))]"
proof -
  let ?tb0 = "table (basic_initial_tableau pm)"
  let ?tb1 = "?tb0[0 := map (\<lambda>x. 0) (?tb0 ! 0)]"
  let ?marked = "fold (\<lambda>(v, ci) r. r[v_index v := 1]) art (map (\<lambda>x. 0) (?tb0 ! 0))"
  let ?tb2 = "?tb0[0 := ?marked]"
  have ne0: "?tb0 \<noteq> []" by (simp add: basic_initial_tableau_def)
  then have ne1: "?tb1 \<noteq> []" and ne2: "?tb2 \<noteq> []" by simp_all
  have z: "?tb1 ! 0 = map (\<lambda>x. 0) (?tb0 ! 0)" using ne0 by (cases ?tb0) simp_all
  have z2: "?tb2 ! 0 = ?marked" using ne0 by (cases ?tb0) simp_all
  have s2: "fold (\<lambda>(v, ci) tb. tb[0 := (tb ! 0)[v_index v := 1]]) art ?tb1 = ?tb2"
    by (simp only: fold_mark_columns_row [OF ne1] z list_update_overwrite)
  have rows: "(\<lambda>(v, ci) r. map2 (-) r (?tb2 ! (ci + 1))) =
              (\<lambda>(v :: variable, ci) r :: real list. map2 (-) r (?tb0 ! (ci + 1)))"
    by (simp add: fun_eq_iff)
  have s3: "fold (\<lambda>(v, ci) tb. tb[0 := map2 (-) (tb ! 0) (tb ! (ci + 1))]) art ?tb2 =
      ?tb0[0 := fold (\<lambda>(v, ci) r. map2 (-) r (?tb0 ! (ci + 1))) art ?marked]"
    by (simp only: fold_subtract_rows_row [OF ne2] z2 rows list_update_overwrite)
  show ?thesis
    unfolding presolve_initial_tableau_def Let_def
    by (simp only: s2 s3 tableau.simps)
qed

lemma artificial_rows:
  assumes "wf_model m" "e \<in> set (snd (create_presolve_model slacks m))"
  shows "\<exists>i < length (constraints m). lacks_slack slacks (constraints m ! i)
           \<and> fst e = artificial_variable_of slacks m i \<and> snd e = i"
proof -
  have ci: "c_index (constraints m ! i) = i" if "i < length (constraints m)" for i
  proof -
    have "c_index (constraints m ! i) = map c_index (constraints m) ! i" using that by simp
    also have "\<dots> = i" using assms(1) that by (simp add: wf_model_def)
    finally show ?thesis .
  qed
  from assms(2) obtain i where "i < length (constraints m)" "lacks_slack slacks (constraints m ! i)"
    "e = (artificial_variable_of slacks m i, c_index (constraints m ! i))"
    by (auto simp: presolve_model_fields artificial_pass_facts(3))
  then show ?thesis using ci by auto
qed

lemma presolve_tableau_entry:
  assumes "wf_model m" "i < length (constraints m)" "k < length (variables (fst (create_presolve_model slacks m)))"
  shows "table (basic_initial_tableau (fst (create_presolve_model slacks m))) ! Suc i ! k =
     coeffs (c_expression (constraints m ! i)) k
       + (if lacks_slack slacks (constraints m ! i) \<and> k = v_index (artificial_variable_of slacks m i)
          then 1 else 0)"
proof -
  let ?pm = "fst (create_presolve_model slacks m)"
  have i': "i < length (constraints ?pm)"
    using assms(2) by (simp add: presolve_model_fields artificial_pass_facts(1))
  have row: "table (basic_initial_tableau ?pm) ! Suc i =
          coefficients (c_expression (constraints ?pm ! i)) ?pm @ [c_bound (constraints ?pm ! i)]"
    using basic_initial_tableau_rows(3) [OF i'] by simp
  have len: "length (coefficients (c_expression (constraints ?pm ! i)) ?pm) = length (variables ?pm)"
    by (simp add: coefficients_def)
  have "table (basic_initial_tableau ?pm) ! Suc i ! k =
          coefficients (c_expression (constraints ?pm ! i)) ?pm ! k"
    unfolding row using assms(3) len by (simp only: nth_append if_True)
  also have "\<dots> = coeffs (c_expression (constraints ?pm ! i)) k"
    using presolve_variables_indices [OF assms(1)] assms(3) by (rule coefficients_nth)
  finally show ?thesis
    by (simp add: presolve_constraint_coeffs [OF assms(2)])
qed

lemma artificial_column_sum:
  assumes "wf_model m" "(v, ci) \<in> set (snd (create_presolve_model slacks m))"
  shows "(\<Sum>e\<leftarrow>snd (create_presolve_model slacks m).
            table (basic_initial_tableau (fst (create_presolve_model slacks m))) ! (snd e + 1) ! v_index v) = 1"
proof -
  let ?pm = "fst (create_presolve_model slacks m)"
  let ?tb0 = "table (basic_initial_tableau ?pm)"
  let ?L = "filter (\<lambda>i. lacks_slack slacks (constraints m ! i)) [0..<length (constraints m)]"
  let ?av = "artificial_variable_of slacks m"
  from artificial_rows [OF assms] obtain i where i: "i < length (constraints m)"
    "lacks_slack slacks (constraints m ! i)" and v: "v = ?av i" and "ci = i"
    by auto
  have iL: "i \<in> set ?L" using i by simp
  have lo: "length (variables m) \<le> v_index v"
    unfolding v using i by (rule artificial_variable_index(1))
  have hi: "v_index v < length (variables ?pm)"
    unfolding v using artificial_variable_index(2) [OF i] by (simp add: presolve_model_fields)
  have cidx: "c_index (constraints m ! k) = k" if "k < length (constraints m)" for k
  proof -
    have "c_index (constraints m ! k) = map c_index (constraints m) ! k" using that by simp
    also have "\<dots> = k" using assms(1) that by (simp add: wf_model_def)
    finally show ?thesis .
  qed
  have entry: "?tb0 ! Suc k ! v_index v = (if k = i then 1 else 0)"
    if k: "k < length (constraints m)" "lacks_slack slacks (constraints m ! k)" for k
  proof -
    have z: "coeffs (c_expression (constraints m ! k)) (v_index v) = 0"
      using assms(1) k(1) lo by (simp add: wf_model_def)
    have d: "k \<noteq> i \<Longrightarrow> v_index (?av i) \<noteq> v_index (?av k)"
      using i k by (intro artificial_variable_distinct) simp_all
    have "?tb0 ! Suc k ! v_index v =
        coeffs (c_expression (constraints m ! k)) (v_index v)
          + (if lacks_slack slacks (constraints m ! k) \<and> v_index v = v_index (?av k) then 1 else 0)"
      using assms(1) k(1) hi by (rule presolve_tableau_entry)
    also have "\<dots> = (if k = i then 1 else 0)"
      using d k(2) z by (auto simp: v)
    finally show ?thesis .
  qed
  have "(\<Sum>e\<leftarrow>snd (create_presolve_model slacks m). ?tb0 ! (snd e + 1) ! v_index v) =
        (\<Sum>k\<leftarrow>?L. ?tb0 ! (c_index (constraints m ! k) + 1) ! v_index v)"
    by (simp add: presolve_model_fields artificial_pass_facts(3) comp_def)
  also have "\<dots> = (\<Sum>k\<leftarrow>?L. if k = i then 1 else 0)"
    by (rule arg_cong [where f = sum_list], rule map_cong) (simp_all add: cidx entry)
  also have "\<dots> = 1"
    using iL by (intro sum_list_indicator) simp_all
  finally show ?thesis .
qed

text \<open>
  C5. For the presolve model of every well-formed model, the tableau built by
  \<open>_presolve_initial_tableau\<close> keeps the constraint rows of the standard layout; its
  objective row is, column by column, 1 on artificial columns and 0 elsewhere, minus the
  sum of the rows of the constraints that have an artificial variable; it is 0 in every
  artificial-variable column, and in every other column (the right-hand side included)
  it is minus the sum of those rows.
\<close>

theorem presolve_initial_tableau_objective_row:
  assumes "wf_model m" and "create_presolve_model slacks m = (pm, art)"
    and "j \<le> length (variables pm)"
  shows
    "tl (table (presolve_initial_tableau art pm)) = tl (table (basic_initial_tableau pm))
     \<and> table (presolve_initial_tableau art pm) ! 0 ! j =
         (if j \<in> set (map (\<lambda>(v, ci). v_index v) art) then 1 else 0)
           - (\<Sum>(v, ci)\<leftarrow>art. table (presolve_initial_tableau art pm) ! (ci + 1) ! j)
     \<and> (j \<in> set (map (\<lambda>(v, ci). v_index v) art) \<longrightarrow>
          table (presolve_initial_tableau art pm) ! 0 ! j = 0)
     \<and> (j \<notin> set (map (\<lambda>(v, ci). v_index v) art) \<longrightarrow>
          table (presolve_initial_tableau art pm) ! 0 ! j =
            - (\<Sum>(v, ci)\<leftarrow>art. table (presolve_initial_tableau art pm) ! (ci + 1) ! j))"
proof -
  let ?T = "table (presolve_initial_tableau art pm)"
  let ?tb0 = "table (basic_initial_tableau pm)"
  let ?n = "Suc (length (variables pm))"
  let ?marked = "fold (\<lambda>(v, ci) r. r[v_index v := 1]) art (map (\<lambda>x. 0::real) (?tb0 ! 0))"
  have pm: "pm = fst (create_presolve_model slacks m)" and art: "art = snd (create_presolve_model slacks m)"
    using assms(2) by simp_all
  have ne0: "?tb0 \<noteq> []" by (simp add: basic_initial_tableau_def)
  have T: "?T = ?tb0[0 := fold (\<lambda>(v, ci) r. map2 (-) r (?tb0 ! (ci + 1))) art ?marked]"
    by (rule presolve_initial_tableau_table)
  have rows: "?T ! Suc ci = ?tb0 ! Suc ci" for ci
    by (simp add: T)
  have a: "tl ?T = tl ?tb0"
    using ne0 by (cases ?tb0) (simp_all add: T)
  have lenrow: "\<forall>e \<in> set art. length (?tb0 ! (snd e + 1)) = ?n"
  proof
    fix e assume "e \<in> set art"
    then obtain i where "i < length (constraints m)" "snd e = i"
      using artificial_rows [OF assms(1), of e slacks] by (auto simp: art)
    then have "snd e < length (constraints pm)"
      by (simp add: pm presolve_model_fields artificial_pass_facts(1))
    from basic_initial_tableau_rows(3) [OF this] show "length (?tb0 ! (snd e + 1)) = ?n"
      by (simp add: coefficients_def)
  qed
  have lm: "length ?marked = ?n"
    by (simp add: fold_mark_columns_nth(1) basic_initial_tableau_rows(2))
  have jn: "j < ?n" using assms(3) by simp
  have mj: "?marked ! j = (if j \<in> set (map (\<lambda>(v, ci). v_index v) art) then 1 else 0)"
  proof -
    have "j < length (map (\<lambda>x. 0::real) (?tb0 ! 0))"
      using jn by (simp add: basic_initial_tableau_rows(2))
    then show ?thesis
      by (simp add: fold_mark_columns_nth(2) comp_def case_prod_beta)
  qed
  have row0: "?T ! 0 = fold (\<lambda>(v, ci) r. map2 (-) r (?tb0 ! (ci + 1))) art ?marked"
    using ne0 by (cases ?tb0) (simp_all add: T)
  have b: "?T ! 0 ! j =
         (if j \<in> set (map (\<lambda>(v, ci). v_index v) art) then 1 else 0)
           - (\<Sum>(v, ci)\<leftarrow>art. ?T ! (ci + 1) ! j)"
    unfolding row0 fold_subtract_rows_nth [OF lm lenrow jn] mj
    by (simp add: rows case_prod_unfold)
  have c: "?T ! 0 ! j = 0" if "j \<in> set (map (\<lambda>(v, ci). v_index v) art)"
  proof -
    from that obtain v ci where vc: "(v, ci) \<in> set art" "j = v_index v" by auto
    have "(\<Sum>e\<leftarrow>art. ?tb0 ! (snd e + 1) ! v_index v) = 1"
      using artificial_column_sum [OF assms(1), of v ci slacks] vc(1) by (simp add: art pm)
    then have "(\<Sum>(v, ci)\<leftarrow>art. ?T ! (ci + 1) ! j) = 1"
      by (simp add: rows case_prod_unfold vc(2))
    with b that show ?thesis by simp
  qed
  have d: "?T ! 0 ! j = - (\<Sum>(v, ci)\<leftarrow>art. ?T ! (ci + 1) ! j)"
    if "j \<notin> set (map (\<lambda>(v, ci). v_index v) art)"
    using b that by simp
  from a b c d show ?thesis by blast
qed

text \<open>The theorem at example_05, whose two constraints both have an artificial
  variable.\<close>

theorem presolve_initial_tableau_objective_row_witness:
  "wf_model (normal_model_of example_05)
   \<and> (5::nat) \<le> length (variables (presolve_model_of example_05))
   \<and> 5 \<in> set (map (\<lambda>(v, ci). v_index v) (artificial_of example_05))
   \<and> table (phase1_initial example_05) ! 0 ! 5 = 0
   \<and> (7::nat) \<le> length (variables (presolve_model_of example_05))
   \<and> 7 \<notin> set (map (\<lambda>(v, ci). v_index v) (artificial_of example_05))
   \<and> table (phase1_initial example_05) ! 0 ! 7 =
       - (\<Sum>(v, ci)\<leftarrow>artificial_of example_05. table (phase1_initial example_05) ! (ci + 1) ! 7)
   \<and> table (phase1_initial example_05) =
       [[0, 5, - 2, 1, 1, 0, 0, - 20], [1, - 3, 1, - 1, 0, 1, 0, 10], [- 1, - 2, 1, 0, - 1, 0, 1, 10]]"
proof -
  have w: "wf_model (normal_model_of example_05)"
    using wf_example_05 by (rule wf_normal_model)
  have j5: "(5::nat) \<le> length (variables (presolve_model_of example_05))" by code_simp
  have j7: "(7::nat) \<le> length (variables (presolve_model_of example_05))" by code_simp
  have a5: "5 \<in> set (map (\<lambda>(v, ci). v_index v) (artificial_of example_05))" by code_simp
  have a7: "7 \<notin> set (map (\<lambda>(v, ci). v_index v) (artificial_of example_05))" by code_simp
  have tb: "table (phase1_initial example_05) =
       [[0, 5, - 2, 1, 1, 0, 0, - 20], [1, - 3, 1, - 1, 0, 1, 0, 10], [- 1, - 2, 1, 0, - 1, 0, 1, 10]]"
    by code_simp
  note A = presolve_initial_tableau_objective_row [OF w presolve_of_pair j5]
  note B = presolve_initial_tableau_objective_row [OF w presolve_of_pair j7]
  have A1: "table (phase1_initial example_05) ! 0 ! 5 = 0"
    unfolding phase1_initial_def using A a5 by blast
  have B1: "table (phase1_initial example_05) ! 0 ! 7 =
       - (\<Sum>(v, ci)\<leftarrow>artificial_of example_05. table (phase1_initial example_05) ! (ci + 1) ! 7)"
    unfolding phase1_initial_def using B a7 by blast
  show ?thesis
    by (intro conjI w j5 a5 A1 j7 a7 B1 tb)
qed

section \<open>The stages of solve and the optimization loop\<close>

lemma solve_stages:
  "solve m =
     (if needs_presolve m then
        (case phase1_loop m of
           None \<Rightarrow> None
         | Some (t1, ok) \<Rightarrow>
             if artifical_variables_are_positive (artificial_of m) t1
             then Some (infeasible m t1 t1)
             else solve_from m (restore_initial_tableau (artificial_of m) t1 (normal_model_of m)))
      else solve_from m (basic_initial_tableau (normal_model_of m)))"
proof -
  obtain nm sl su where a: "augment_model m = (nm, sl, su)"
    by (cases "augment_model m") auto
  obtain pm art where p: "create_presolve_model sl nm = (pm, art)"
    by (cases "create_presolve_model sl nm") auto
  show ?thesis
    by (simp add: solve_def presolve_def needs_presolve_def phase1_loop_def phase1_initial_def
        artificial_of_def presolve_model_of_def slacks_of_def normal_model_of_def a p
        split: option.splits)
qed

lemma optimize_flag_pair:
  assumes "optimize t = Some r"
  shows "if snd r then is_optimal (fst r)
         else \<not> is_optimal (fst r) \<and> is_unbounded (fst r) (choose_entering_variable (fst r))"
proof (rule optimize.raw_induct
    [where P = "\<lambda>t r. if snd r then is_optimal (fst r)
         else \<not> is_optimal (fst r) \<and> is_unbounded (fst r) (choose_entering_variable (fst r))",
      OF _ assms])
  fix opt :: "tableau \<Rightarrow> (tableau \<times> bool) option" and t r
  assume "\<And>x y. opt x = Some y \<Longrightarrow>
            (if snd y then is_optimal (fst y)
             else \<not> is_optimal (fst y) \<and> is_unbounded (fst y) (choose_entering_variable (fst y)))"
    and "(if is_optimal t then Some (t, True)
          else let pivot_col = choose_entering_variable t
               in if is_unbounded t pivot_col then Some (t, False)
                  else opt (pivot t (choose_leaving_variable t pivot_col) pivot_col)) = Some r"
  then show "if snd r then is_optimal (fst r)
         else \<not> is_optimal (fst r) \<and> is_unbounded (fst r) (choose_entering_variable (fst r))"
    by (auto simp: Let_def split: if_splits)
qed

lemma optimize_flag:
  "optimize t = Some (t', ok) \<Longrightarrow>
     (if ok then is_optimal t'
      else \<not> is_optimal t' \<and> is_unbounded t' (choose_entering_variable t'))"
  using optimize_flag_pair [of t "(t', ok)"] by (auto split: if_splits)

lemma optimize_reaches_pair:
  assumes "optimize t = Some r"
  shows "loop_reaches t (fst r)"
proof (rule optimize.raw_induct [where P = "\<lambda>t r. loop_reaches t (fst r)", OF _ assms])
  fix opt :: "tableau \<Rightarrow> (tableau \<times> bool) option" and t r
  assume "\<And>x y. opt x = Some y \<Longrightarrow> loop_reaches x (fst y)"
    and "(if is_optimal t then Some (t, True)
          else let pivot_col = choose_entering_variable t
               in if is_unbounded t pivot_col then Some (t, False)
                  else opt (pivot t (choose_leaving_variable t pivot_col) pivot_col)) = Some r"
  then show "loop_reaches t (fst r)"
    by (cases r) (auto simp: Let_def split: if_splits intro: loop_reaches.intros)
qed

lemma optimize_reaches: "optimize t = Some (t', ok) \<Longrightarrow> loop_reaches t t'"
  using optimize_reaches_pair [of t "(t', ok)"] by simp

lemma reaches_unbounded:
  "loop_reaches t t' \<Longrightarrow> \<not> is_optimal t' \<Longrightarrow> is_unbounded t' (choose_entering_variable t') \<Longrightarrow>
     optimize t = Some (t', False)"
proof (induction rule: loop_reaches.induct)
  case (here t)
  then show ?case by (subst optimize.simps) simp
next
  case (step t t')
  then show ?case by (subst optimize.simps) simp
qed

lemma reaches_optimal:
  "loop_reaches t t' \<Longrightarrow> is_optimal t' \<Longrightarrow> optimize t = Some (t', True)"
proof (induction rule: loop_reaches.induct)
  case (here t)
  then show ?case by (subst optimize.simps) simp
next
  case (step t t')
  then show ?case by (subst optimize.simps) simp
qed

lemma solve_from_Some:
  assumes "solve_from m t = Some sol"
  shows "initial_tableau sol = t" and "\<exists>ok. optimize t = Some (final_tableau sol, ok)"
    and "s_status sol \<noteq> Infeasible"
proof -
  obtain t' ok where o: "optimize t = Some (t', ok)"
    using assms by (cases "optimize t") (auto simp: solve_from_def)
  have sol: "sol = (if \<not> ok then unbounded m t t'
                    else create_solution (extract_assignment t') m t t')"
    using assms o by (auto simp: solve_from_def split: if_splits)
  show "initial_tableau sol = t"
    by (simp add: sol unbounded_def create_solution_def with_assignment_def)
  have "final_tableau sol = t'"
    by (simp add: sol unbounded_def create_solution_def with_assignment_def)
  with o show "\<exists>ok. optimize t = Some (final_tableau sol, ok)"
    by blast
  show "s_status sol \<noteq> Infeasible"
    by (simp add: sol unbounded_def create_solution_def with_assignment_def)
qed

section \<open>Infeasibility\<close>

text \<open>
  C6 (as amended). When Phase I runs and its loop halts with the tableau \<open>t1\<close>,
  \<open>solve\<close> returns a solution with status infeasible if and only if some artificial
  variable's value in the assignment extracted from \<open>t1\<close> is greater than 0 (the check
  applies no tolerance); the outcome is then the value \<open>Solution.infeasible\<close>, not an
  error.
\<close>

theorem infeasible_iff_artificial_positive:
  assumes "needs_presolve m" and "phase1_loop m = Some (t1, ok)"
  shows "((\<exists>sol. solve m = Some sol \<and> s_status sol = Infeasible)
            \<longleftrightarrow> (\<exists>(v, ci) \<in> set (artificial_of m). 0 < extract_assignment t1 ! v_index v))
         \<and> ((\<exists>(v, ci) \<in> set (artificial_of m). 0 < extract_assignment t1 ! v_index v)
            \<longrightarrow> solve m = Some (infeasible m t1 t1))"
proof (cases "artifical_variables_are_positive (artificial_of m) t1")
  case True
  then have "solve m = Some (infeasible m t1 t1)"
    using assms by (simp add: solve_stages)
  moreover have "\<exists>(v, ci) \<in> set (artificial_of m). 0 < extract_assignment t1 ! v_index v"
    using True by (simp add: artifical_variables_are_positive_def list_ex_iff)
  ultimately show ?thesis
    by (simp add: infeasible_def)
next
  case False
  then have s: "solve m = solve_from m (restore_initial_tableau (artificial_of m) t1 (normal_model_of m))"
    using assms by (simp add: solve_stages)
  have n: "\<not> (\<exists>(v, ci) \<in> set (artificial_of m). 0 < extract_assignment t1 ! v_index v)"
    using False by (simp add: artifical_variables_are_positive_def list_ex_iff)
  have "\<not> (\<exists>sol. solve m = Some sol \<and> s_status sol = Infeasible)"
    using solve_from_Some(3) s by auto
  with n show ?thesis by blast
qed

text \<open>The theorem at maximize \<open>x1\<close> subject to \<open>x1 \<le> 1\<close>, \<open>x1 = 2\<close>.\<close>

theorem infeasible_iff_artificial_positive_witness:
  "needs_presolve example_contradiction
   \<and> (\<exists>t1 ok. phase1_loop example_contradiction = Some (t1, ok)
         \<and> (\<exists>(v, ci) \<in> set (artificial_of example_contradiction). 0 < extract_assignment t1 ! v_index v)
         \<and> solve example_contradiction = Some (infeasible example_contradiction t1 t1))"
proof -
  have h1: "needs_presolve example_contradiction" by code_simp
  have h2: "map_option (artifical_variables_are_positive (artificial_of example_contradiction) \<circ> fst)
              (phase1_loop example_contradiction) = Some True"
    by code_simp
  then obtain t1 ok where l: "phase1_loop example_contradiction = Some (t1, ok)"
    and p: "artifical_variables_are_positive (artificial_of example_contradiction) t1"
    by (cases "phase1_loop example_contradiction") auto
  from p have b: "\<exists>(v, ci) \<in> set (artificial_of example_contradiction). 0 < extract_assignment t1 ! v_index v"
    by (simp add: artifical_variables_are_positive_def list_ex_iff)
  from infeasible_iff_artificial_positive [OF h1 l] b
  have "solve example_contradiction = Some (infeasible example_contradiction t1 t1)"
    by blast
  with h1 l b show ?thesis by blast
qed

text \<open>
  With the tolerance in the criterion the claim fails: for maximize \<open>x1\<close> subject to
  \<open>- x1 = 5e-10\<close> the artificial variable ends Phase I at 5e-10, which does not exceed
  the tolerance 1e-9, and \<open>solve\<close> reports infeasible.
\<close>

theorem infeasible_tolerance_counterexample:
  "needs_presolve example_tiny_bound
   \<and> map_option s_status (solve example_tiny_bound) = Some Infeasible
   \<and> map_option (artificial_exceeds_tolerance (artificial_of example_tiny_bound))
        (phase1_final example_tiny_bound) = Some False"
  by code_simp

section \<open>Success of Phase I and the restored tableau\<close>

text \<open>
  C10. If Phase I runs and, after its loop, every artificial variable's extracted value
  is \<open>\<le> 0\<close>, then \<open>_presolve\<close> reports success, Phase II starts from the restored
  tableau, and the constraint rows of the restored tableau are the rows of the Phase-I
  final tableau with every artificial-variable column deleted, whether or not such a
  column was basic.
\<close>

theorem presolve_success_deletes_artificial_columns:
  assumes "needs_presolve m" and "phase1_loop m = Some (t1, ok)"
    and "list_all (\<lambda>(v, ci). extract_assignment t1 ! v_index v \<le> 0) (artificial_of m)"
  shows "presolve (slacks_of m) (normal_model_of m) =
           Some (restore_initial_tableau (artificial_of m) t1 (normal_model_of m), True, artificial_of m)
         \<and> phase2_start m = Some (restore_initial_tableau (artificial_of m) t1 (normal_model_of m))
         \<and> tl (table (restore_initial_tableau (artificial_of m) t1 (normal_model_of m))) =
             map (delete_columns (map (\<lambda>(v, ci). v_index v) (artificial_of m))) (tl (table t1))"
proof -
  have np: "\<not> artifical_variables_are_positive (artificial_of m) t1"
    using assms(3)
    by (auto simp: artifical_variables_are_positive_def list_ex_iff list_all_iff)
  obtain pm art where p: "create_presolve_model (slacks_of m) (normal_model_of m) = (pm, art)"
    by (cases "create_presolve_model (slacks_of m) (normal_model_of m)") auto
  have "presolve (slacks_of m) (normal_model_of m) =
           Some (restore_initial_tableau (artificial_of m) t1 (normal_model_of m), True, artificial_of m)"
    using assms(2) np
    by (simp add: presolve_def p phase1_loop_def phase1_initial_def artificial_of_def
        presolve_model_of_def)
  moreover have "phase2_start m = Some (restore_initial_tableau (artificial_of m) t1 (normal_model_of m))"
    using assms(1,2) np by (simp add: phase2_start_def)
  moreover have "tl (table (restore_initial_tableau (artificial_of m) t1 (normal_model_of m))) =
             map (delete_columns (map (\<lambda>(v, ci). v_index v) (artificial_of m))) (tl (table t1))"
    by (simp add: restore_initial_tableau_def Let_def map_tl)
  ultimately show ?thesis by blast
qed

text \<open>The theorem at maximize \<open>x1\<close> subject to \<open>- x1 = 0\<close>: the artificial variable
  (column 1) is still basic in the only constraint row, at value 0, and the row enters
  Phase II as \<open>[-1, 0]\<close>, without a basic column.\<close>

theorem presolve_success_deletes_artificial_columns_witness:
  "\<exists>t1 ok. needs_presolve example_degenerate
     \<and> phase1_loop example_degenerate = Some (t1, ok)
     \<and> list_all (\<lambda>(v, ci). extract_assignment t1 ! v_index v \<le> 0) (artificial_of example_degenerate)
     \<and> map v_index (map fst (artificial_of example_degenerate)) = [1]
     \<and> is_basic_column (column (table t1) 1)
     \<and> extract_assignment t1 ! 1 = 0
     \<and> table t1 = [[1, 0, 0], [- 1, 1, 0]]
     \<and> phase2_start example_degenerate =
         Some (restore_initial_tableau (artificial_of example_degenerate) t1 (normal_model_of example_degenerate))
     \<and> tl (table (restore_initial_tableau (artificial_of example_degenerate) t1
              (normal_model_of example_degenerate))) = [[- 1, 0]]"
proof -
  have h1: "needs_presolve example_degenerate" by code_simp
  have h2: "map_option
              (\<lambda>(t, ok). (table t,
                 list_all (\<lambda>(v, ci). extract_assignment t ! v_index v \<le> 0) (artificial_of example_degenerate),
                 is_basic_column (column (table t) 1), extract_assignment t ! 1))
              (phase1_loop example_degenerate)
            = Some ([[1, 0, 0], [- 1, 1, 0]], True, True, 0)"
    by code_simp
  have h3: "map v_index (map fst (artificial_of example_degenerate)) = [1]" by code_simp
  from h2 obtain t1 ok where l: "phase1_loop example_degenerate = Some (t1, ok)"
    and t: "table t1 = [[1, 0, 0], [- 1, 1, 0]]"
    and a: "list_all (\<lambda>(v, ci). extract_assignment t1 ! v_index v \<le> 0) (artificial_of example_degenerate)"
    and b: "is_basic_column (column (table t1) 1)" "extract_assignment t1 ! 1 = 0"
    by (cases "phase1_loop example_degenerate") auto
  note T = presolve_success_deletes_artificial_columns [OF h1 l a]
  have cols: "map (\<lambda>(v, ci). v_index v) (artificial_of example_degenerate) = [1]"
    by code_simp
  have r: "tl (table (restore_initial_tableau (artificial_of example_degenerate) t1
              (normal_model_of example_degenerate))) = [[- 1, 0]]"
    using T by (simp add: cols t delete_columns_def)
  have s: "phase2_start example_degenerate =
         Some (restore_initial_tableau (artificial_of example_degenerate) t1 (normal_model_of example_degenerate))"
    using T by simp
  show ?thesis
    by (intro exI [of _ t1] exI [of _ ok] conjI h1 l a h3 b t s r)
qed

text \<open>
  C7, at the failing input minimize \<open>x1\<close> subject to \<open>- x1 \<le> -1\<close>. After Phase I
  the column of \<open>x1\<close> is the unit column of the only constraint row. Step 3 of
  \<open>_restore_initial_tableau\<close> recognises a basic column by \<open>(amax, amin) = (1, 0)\<close>,
  which a column of a single row never satisfies, so the objective row stays
  \<open>[1, 0, 0]\<close> instead of \<open>[0, 1, -1]\<close>. The tableau passes for optimal at once and
  \<open>solve\<close> returns the assignment \<open>[0]\<close>, which violates the constraint.
\<close>

theorem restore_misses_single_row_basis:
  "map_option table (phase2_start example_le_negative) = Some [[1, 0, 0], [1, - 1, 1]]
   \<and> map_option (\<lambda>s. (s_status s, assignment s example_le_negative)) (solve example_le_negative)
       = Some (Optimal, Some [0])"
  by code_simp

text \<open>The same at maximize \<open>x1\<close> subject to \<open>x1 = 5\<close>: the restored objective row
  is \<open>[-1, 0]\<close>, not \<open>[0, 5]\<close>.\<close>

lemma example_single_equality_run:
  "map_option (table \<circ> fst) (phase1_loop example_single_equality) = Some [[0, 1, 0], [1, 1, 5]]
   \<and> map_option table (phase2_start example_single_equality) = Some [[- 1, 0], [1, 5]]"
  by code_simp

section \<open>Unboundedness\<close>

text \<open>
  C8 (as amended). Whenever the optimization loop that \<open>solve\<close> itself runs (Phase II,
  or the only phase on the slack-only path) reaches a tableau that is not optimal and
  whose entering column has no entry available for the ratio test, \<open>solve\<close> returns a
  solution with status unbounded.
\<close>

theorem phase2_unbounded_reported:
  assumes "phase2_start m = Some t" and "loop_reaches t t'"
    and "\<not> is_optimal t'" and "is_unbounded t' (choose_entering_variable t')"
  shows "solve m = Some (unbounded m t t') \<and> s_status (unbounded m t t') = Unbounded"
proof -
  have opt: "optimize t = Some (t', False)"
    using assms(2-4) by (rule reaches_unbounded)
  have "solve m = solve_from m t"
    using assms(1) by (auto simp: solve_stages phase2_start_def split: if_splits option.splits)
  then show ?thesis
    using opt by (simp add: solve_from_def unbounded_def)
qed

text \<open>The theorem at example_05, whose Phase II stops unbounded.\<close>

theorem phase2_unbounded_reported_witness:
  "\<exists>t t'. phase2_start example_05 = Some t \<and> loop_reaches t t' \<and> \<not> is_optimal t'
     \<and> is_unbounded t' (choose_entering_variable t')
     \<and> solve example_05 = Some (unbounded example_05 t t')"
proof -
  have "loop_stopped_unbounded (case phase2_start example_05 of None \<Rightarrow> None | Some t \<Rightarrow> optimize t)"
    by code_simp
  then obtain t t' ok where s: "phase2_start example_05 = Some t"
    and o: "optimize t = Some (t', ok)"
    and u: "\<not> is_optimal t'" "is_unbounded t' (choose_entering_variable t')"
    by (auto simp: loop_stopped_unbounded_def split: option.splits)
  have r: "loop_reaches t t'" using o by (rule optimize_reaches)
  from phase2_unbounded_reported [OF s r u] s r u show ?thesis by blast
qed

text \<open>
  In Phase I the same event is not reported: \<open>_presolve\<close> drops the flag of
  \<open>_optimize\<close>. For maximize \<open>x1\<close> subject to \<open>6e-10 x1 = 1\<close>, \<open>6e-10 x1 = 2\<close> the
  Phase-I loop stops on an entering column without an entry beyond the tolerance, and
  \<open>solve\<close> returns infeasible.
\<close>

theorem phase1_unbounded_counterexample:
  "needs_presolve example_tiny_coefficients
   \<and> loop_stopped_unbounded (phase1_loop example_tiny_coefficients)
   \<and> map_option s_status (solve example_tiny_coefficients) = Some Infeasible"
  by code_simp

section \<open>The tableaux a solution retains\<close>

text \<open>
  C9 (as amended). A solution that \<open>solve\<close> returns with status optimal or unbounded
  carries, as its initial tableau, the tableau on which \<open>solve\<close> started its own
  optimization loop (the restored Phase-II tableau when Phase I ran, the slack-only
  tableau otherwise), as it was before that loop's pivots, and as its final tableau the
  one the loop ended with.
\<close>

theorem solution_keeps_final_phase_tableau:
  assumes "solve m = Some sol" and "s_status sol \<noteq> Infeasible"
  shows "\<exists>t0 ok. phase2_start m = Some t0 \<and> initial_tableau sol = t0
           \<and> optimize t0 = Some (final_tableau sol, ok)"
proof -
  have "\<exists>t0. phase2_start m = Some t0 \<and> solve_from m t0 = Some sol"
    using assms
    by (auto simp: solve_stages phase2_start_def infeasible_def
        split: if_splits option.splits)
  then obtain t0 where t0: "phase2_start m = Some t0" "solve_from m t0 = Some sol"
    by blast
  from solve_from_Some(1,2)[OF t0(2)] t0(1) show ?thesis
    by blast
qed

text \<open>The theorem at example_04.\<close>

theorem solution_keeps_final_phase_tableau_witness:
  "\<exists>sol t0 ok. solve example_04 = Some sol \<and> s_status sol \<noteq> Infeasible
     \<and> phase2_start example_04 = Some t0 \<and> initial_tableau sol = t0
     \<and> optimize t0 = Some (final_tableau sol, ok)"
proof -
  obtain sol where s: "solve example_04 = Some sol" and o: "s_status sol = Optimal"
    using example_04_run by (cases "solve example_04") auto
  from o have n: "s_status sol \<noteq> Infeasible" by simp
  from solution_keeps_final_phase_tableau [OF s n] s n show ?thesis by blast
qed

text \<open>
  The Phase-I initial tableau is not retained. For example_04 (Phase I ran, status
  optimal) neither tableau of the solution is the Phase-I initial tableau; for maximize
  \<open>x1\<close> subject to \<open>x1 \<le> 1\<close>, \<open>x1 = 2\<close> (status infeasible) the solution's
  initial tableau is not the Phase-I initial tableau.
\<close>

theorem retained_tableaux_counterexample:
  "needs_presolve example_04
   \<and> map_option s_status (solve example_04) = Some Optimal
   \<and> map_option (table \<circ> initial_tableau) (solve example_04) \<noteq> Some (table (phase1_initial example_04))
   \<and> map_option (table \<circ> final_tableau) (solve example_04) \<noteq> Some (table (phase1_initial example_04))
   \<and> map_option s_status (solve example_contradiction) = Some Infeasible
   \<and> map_option (table \<circ> initial_tableau) (solve example_contradiction)
        \<noteq> Some (table (phase1_initial example_contradiction))"
  by code_simp

end
